theory Spec2Isabelle
  imports Complex_Main "HOL-Library.Log_Nat"
begin

section \<open>Height map data (definitions.ts)\<close>

text \<open>
  This theory embeds the height map tool of gSender: the interpolation and the probe grid
  of \<open>utils/interpolation.ts\<close> and the G-code transformation of
  \<open>utils/gcodeTransformer.ts\<close>, and proves properties of them.

  A JavaScript \<open>number\<close> is a double. The model writes a number as a \<^typ>\<open>real\<close>; the
  values NaN and the infinities do not exist. Where the source divides by a number that
  can be zero and the quotient is \<open>Infinity\<close> or NaN, the model says what the source does
  with it. A call that throws or does not return has the value \<open>None\<close>.

  The interpolation is modelled with the exact arithmetic of the reals. The probe grid and
  the G-code transformation take \<open>Math.ceil\<close> and \<open>toFixed\<close> of computed numbers and
  compare them, so their arithmetic is the arithmetic of doubles (section
  \<open>Double arithmetic\<close>): an operation reads each operand as the double nearest to it and
  rounds its result to the nearest double.

  The fields \<open>x\<close>, \<open>y\<close>, \<open>z\<close> of \<open>HeightMapPoint\<close> are called \<open>px\<close>, \<open>py\<close>, \<open>pz\<close>. Of
  \<open>HeightMapData\<close> only the fields read by the functions below are kept (\<open>bounds\<close> and
  \<open>points\<close>).
\<close>

record HeightMapPoint =
  px :: real
  py :: real
  pz :: real

record HeightMapBounds =
  minX :: real
  maxX :: real
  minY :: real
  maxY :: real

record HeightMapData =
  bounds :: HeightMapBounds
  points :: "HeightMapPoint list"

section \<open>Bilinear interpolation (utils/interpolation.ts)\<close>

text \<open>\<open>[...new Set(values)].sort((a, b) => a - b)\<close>: the distinct values, ascending.\<close>

definition uniqueSorted :: "real list \<Rightarrow> real list" where
  "uniqueSorted vs = sort (remdups vs)"

text \<open>
  The interval search of \<open>findSurroundingPoints\<close>, one call per iteration of
  \<open>for (let i = 0; i < unique.length - 1; i++)\<close>: \<open>i\<close> is the loop counter and \<open>idx\<close> the
  current value of \<open>x0Index\<close> (\<open>y0Index\<close>). The first interval that holds the clamped
  coordinate ends the loop; the last iteration stores its index otherwise.
\<close>

function findIndexLoop :: "real \<Rightarrow> real list \<Rightarrow> nat \<Rightarrow> nat \<Rightarrow> nat" where
  "findIndexLoop c u i idx =
     (if i + 1 < length u then
        (if c \<ge> u ! i \<and> c \<le> u ! (i + 1) then i
         else findIndexLoop c u (i + 1) (if i + 2 = length u then i else idx))
      else idx)"
  by pat_completeness auto
termination
  by (relation "measure (\<lambda>(c, u, i, idx). length u - i)") auto

declare findIndexLoop.simps [simp del]

record Surrounding =
  p00 :: HeightMapPoint
  p10 :: HeightMapPoint
  p01 :: HeightMapPoint
  p11 :: HeightMapPoint

definition clampX :: "HeightMapData \<Rightarrow> real \<Rightarrow> real" where
  "clampX mapData x = max (minX (bounds mapData)) (min (maxX (bounds mapData)) x)"

definition clampY :: "HeightMapData \<Rightarrow> real \<Rightarrow> real" where
  "clampY mapData y = max (minY (bounds mapData)) (min (maxY (bounds mapData)) y)"

text \<open>\<open>points.find((p) => p.x === a && p.y === b)\<close>: the first stored point at \<open>(a, b)\<close>.\<close>

definition findPoint :: "HeightMapPoint list \<Rightarrow> real \<Rightarrow> real \<Rightarrow> HeightMapPoint option" where
  "findPoint ps a b = find (\<lambda>p. px p = a \<and> py p = b) ps"

definition findSurroundingPoints :: "real \<Rightarrow> real \<Rightarrow> HeightMapData \<Rightarrow> Surrounding option" where
  "findSurroundingPoints x y mapData =
     (let uniqueX = uniqueSorted (map px (points mapData));
          uniqueY = uniqueSorted (map py (points mapData))
      in if length uniqueX < 2 \<or> length uniqueY < 2 then None
         else
           let clampedX = clampX mapData x;
               clampedY = clampY mapData y;
               x0Index = findIndexLoop clampedX uniqueX 0 0;
               y0Index = findIndexLoop clampedY uniqueY 0 0;
               x0 = uniqueX ! x0Index;
               x1 = (if x0Index + 1 < length uniqueX then uniqueX ! (x0Index + 1) else x0);
               y0 = uniqueY ! y0Index;
               y1 = (if y0Index + 1 < length uniqueY then uniqueY ! (y0Index + 1) else y0)
           in case findPoint (points mapData) x0 y0 of None \<Rightarrow> None | Some a \<Rightarrow>
              (case findPoint (points mapData) x1 y0 of None \<Rightarrow> None | Some b \<Rightarrow>
              (case findPoint (points mapData) x0 y1 of None \<Rightarrow> None | Some c \<Rightarrow>
              (case findPoint (points mapData) x1 y1 of None \<Rightarrow> None | Some d \<Rightarrow>
                 Some \<lparr>p00 = a, p10 = b, p01 = c, p11 = d\<rparr>))))"

text \<open>The weighted sum of \<open>bilinearInterpolate\<close>, for a cell and the two weights.\<close>

definition bilinear :: "Surrounding \<Rightarrow> real \<Rightarrow> real \<Rightarrow> real" where
  "bilinear s xWeight yWeight =
     pz (p00 s) * (1 - xWeight) * (1 - yWeight) +
     pz (p10 s) * xWeight * (1 - yWeight) +
     pz (p01 s) * (1 - xWeight) * yWeight +
     pz (p11 s) * xWeight * yWeight"

definition bilinearInterpolate :: "real \<Rightarrow> real \<Rightarrow> HeightMapData \<Rightarrow> real option" where
  "bilinearInterpolate x y mapData =
     (case findSurroundingPoints x y mapData of
        None \<Rightarrow> None
      | Some s \<Rightarrow>
          if px (p00 s) = px (p10 s) \<and> py (p00 s) = py (p01 s) then Some (pz (p00 s))
          else
            let xRange = px (p10 s) - px (p00 s);
                yRange = py (p01 s) - py (p00 s);
                xWeight = (if xRange > 0 then (x - px (p00 s)) / xRange else 0);
                yWeight = (if yRange > 0 then (y - py (p00 s)) / yRange else 0)
            in Some (bilinear s xWeight yWeight))"

text \<open>\<open>getZOffset\<close>: the map argument may be \<open>null\<close>, modelled by \<open>None\<close>.\<close>

definition getZOffset :: "real \<Rightarrow> real \<Rightarrow> HeightMapData option \<Rightarrow> real" where
  "getZOffset x y mapData =
     (case mapData of
        None \<Rightarrow> 0
      | Some m \<Rightarrow>
          if points m = [] then 0
          else (case bilinearInterpolate x y m of None \<Rightarrow> 0 | Some z \<Rightarrow> z))"

definition isWithinBounds :: "real \<Rightarrow> real \<Rightarrow> HeightMapData \<Rightarrow> bool" where
  "isWithinBounds x y mapData =
     (x \<ge> minX (bounds mapData) \<and> x \<le> maxX (bounds mapData) \<and>
      y \<ge> minY (bounds mapData) \<and> y \<le> maxY (bounds mapData))"


text \<open>
  The slope of the interpolated surface of a cell along x (at the height \<open>y\<close>) and
  along y (at the abscissa \<open>x\<close>): the gradient that an extrapolating query follows.
\<close>

definition gradientX :: "Surrounding \<Rightarrow> real \<Rightarrow> real" where
  "gradientX s y =
     (let yWeight = (y - py (p00 s)) / (py (p01 s) - py (p00 s))
      in ((pz (p10 s) - pz (p00 s)) * (1 - yWeight) + (pz (p11 s) - pz (p01 s)) * yWeight) /
         (px (p10 s) - px (p00 s)))"

definition gradientY :: "Surrounding \<Rightarrow> real \<Rightarrow> real" where
  "gradientY s x =
     (let xWeight = (x - px (p00 s)) / (px (p10 s) - px (p00 s))
      in ((pz (p01 s) - pz (p00 s)) * (1 - xWeight) + (pz (p11 s) - pz (p10 s)) * xWeight) /
         (py (p01 s) - py (p00 s)))"

section \<open>Double arithmetic\<close>

text \<open>
  The integer nearest to \<open>r\<close>, the even one of the two when \<open>r\<close> lies halfway between
  them.
\<close>

definition roundHalfEven :: "real \<Rightarrow> int" where
  "roundHalfEven r =
     (let f = \<lfloor>r\<rfloor>
      in if r - of_int f < 1 / 2 then f
         else if 1 / 2 < r - of_int f then f + 1
         else if even f then f else f + 1)"

text \<open>
  The binary exponent of \<open>x \<noteq> 0\<close>, the integer \<open>e\<close> with \<open>2^e \<le> |x| < 2^(e+1)\<close>, from
  the number of bits of the integer part of \<open>|x|\<close> or of \<open>1 / |x|\<close>.
\<close>

definition binaryExponent :: "real \<Rightarrow> int" where
  "binaryExponent x =
     (if 1 \<le> \<bar>x\<bar> then bitlen \<lfloor>\<bar>x\<bar>\<rfloor> - 1 else - bitlen (\<lceil>1 / \<bar>x\<bar>\<rceil> - 1))"

text \<open>
  The double nearest to \<open>x\<close> (round to nearest, ties to even): \<open>x\<close> rounded to 53
  significant bits. The range of the exponent of a double is not modelled: there is no
  overflow to \<open>Infinity\<close>, and no loss of precision below \<open>2^(-1022)\<close>.
\<close>

definition toDouble :: "real \<Rightarrow> real" where
  "toDouble x =
     (if x = 0 then 0
      else let e = binaryExponent x
           in of_int (roundHalfEven (x * 2 powi (52 - e))) * 2 powi (e - 52))"

text \<open>
  The operators \<open>+\<close>, \<open>-\<close>, \<open>*\<close>, \<open>/\<close> and \<open>Math.sqrt\<close> on doubles: the exact result,
  rounded. A real that is not a double stands for the double nearest to it, as a decimal
  literal does in JavaScript. A division by zero has no value here; the callers say what
  the source does then. \<open>Math.sqrt\<close> is only taken of a sum of squares, which is not
  negative.
\<close>

definition dadd :: "real \<Rightarrow> real \<Rightarrow> real" where
  "dadd a b = toDouble (toDouble a + toDouble b)"

definition dsub :: "real \<Rightarrow> real \<Rightarrow> real" where
  "dsub a b = toDouble (toDouble a - toDouble b)"

definition dmul :: "real \<Rightarrow> real \<Rightarrow> real" where
  "dmul a b = toDouble (toDouble a * toDouble b)"

definition ddiv :: "real \<Rightarrow> real \<Rightarrow> real" where
  "ddiv a b = toDouble (toDouble a / toDouble b)"

definition dsqrt :: "real \<Rightarrow> real" where
  "dsqrt a = toDouble (sqrt (toDouble a))"

text \<open>
  For evaluation, the rounded square root of a positive double \<open>q\<close> is computed in
  integers. \<open>intSqrt n\<close> is the integer part of the square root of \<open>n\<close>. With \<open>e\<close> half
  the binary exponent of \<open>q\<close>, rounded down, \<open>q * 2^(104 - 2e)\<close> is an integer \<open>n\<close> of 105
  or 106 bits, and the double is the integer nearest to the square root of \<open>n\<close> (there
  is no tie), scaled by \<open>2^(e - 52)\<close>. Lemma \<open>dsqrt_code\<close> shows that this is \<open>dsqrt\<close>.
\<close>

function intSqrt :: "int \<Rightarrow> int" where
  "intSqrt n = (if n \<le> 0 then 0 else
     let r = 2 * intSqrt (n div 4) in if (r + 1) * (r + 1) \<le> n then r + 1 else r)"
  by pat_completeness auto
termination by (relation "measure nat") auto

definition sqrtDouble :: "real \<Rightarrow> real" where
  "sqrtDouble q =
     (let e = binaryExponent q div 2;
          n = \<lfloor>q * 2 powi (104 - 2 * e)\<rfloor>;
          r = intSqrt n;
          k = (if n - r * r \<le> r then r else r + 1)
      in of_int k * 2 powi (e - 52))"

section \<open>Probe grid (calculateProbeGrid in utils/interpolation.ts)\<close>

text \<open>
  \<open>Number(v.toFixed(d))\<close>: \<open>toFixed\<close> takes the integer \<open>n\<close> with \<open>n / 10^d\<close> nearest to
  the magnitude of the double \<open>v\<close> (the larger \<open>n\<close> on a tie) and keeps the sign of \<open>v\<close>.
  The result is written as the decimal \<open>n / 10^d\<close>, which stands for the double that
  \<open>Number\<close> reads from the text.
\<close>

definition toFixedNumber :: "nat \<Rightarrow> real \<Rightarrow> real" where
  "toFixedNumber d v =
     (let w = toDouble v
      in if w < 0 then - (of_int \<lfloor>(- w) * 10 ^ d + 1 / 2\<rfloor> / 10 ^ d)
         else of_int \<lfloor>w * 10 ^ d + 1 / 2\<rfloor> / 10 ^ d)"

text \<open>
  Count mode, one axis: \<open>Array.from({ length: pointCount }, (_, i) => Number((min + i * step).toFixed(3)))\<close>.
  The counts are integers; a length below zero is an empty array.
\<close>

definition countAxis :: "real \<Rightarrow> real \<Rightarrow> int \<Rightarrow> real list" where
  "countAxis lo hi pointCount =
     (let step = (if pointCount > 1 then ddiv (dsub hi lo) (of_int (pointCount - 1)) else 0)
      in map (\<lambda>i. toFixedNumber 3 (dadd lo (dmul (real i) step))) [0..<nat pointCount])"

text \<open>
  Spacing mode, one axis. \<open>Math.ceil((max - min) / gridSpacing)\<close> is the ceiling of the
  rounded quotient of two doubles. \<open>Math.ceil((max - min) / gridSpacing) + 1\<close> is \<open>Infinity\<close> for a
  spacing of zero and \<open>max > min\<close>, and \<open>Array.from\<close> then throws a RangeError: the result is
  \<open>None\<close>. For a spacing of zero and \<open>max \<le> min\<close> the length is NaN or \<open>-Infinity\<close>, which
  \<open>Array.from\<close> reads as 0. The last element of an empty array is \<open>undefined\<close>, which
  differs from \<open>max\<close>. The limit of JavaScript on the length of an array is not modelled
  for finite lengths.
\<close>

definition spacingCount :: "real \<Rightarrow> real \<Rightarrow> real \<Rightarrow> nat option" where
  "spacingCount lo hi gridSpacing =
     (if gridSpacing = 0 then (if dsub hi lo > 0 then None else Some 0)
      else Some (nat (\<lceil>ddiv (dsub hi lo) gridSpacing\<rceil> + 1)))"

definition spacingGenerated :: "real \<Rightarrow> real \<Rightarrow> real \<Rightarrow> nat \<Rightarrow> real list" where
  "spacingGenerated lo hi gridSpacing count =
     map (\<lambda>i. toFixedNumber 3 (min (dadd lo (dmul (real i) gridSpacing)) (toDouble hi)))
       [0..<count]"

text \<open>\<open>if (xPoints[xPoints.length - 1] !== maxX) xPoints.push(maxX)\<close>, a comparison of doubles.\<close>

definition ensureMax :: "real \<Rightarrow> real list \<Rightarrow> real list" where
  "ensureMax hi ps =
     (if ps = [] \<or> toDouble (last ps) \<noteq> toDouble hi then ps @ [hi] else ps)"

definition spacingAxis :: "real \<Rightarrow> real \<Rightarrow> real \<Rightarrow> real list option" where
  "spacingAxis lo hi gridSpacing =
     (case spacingCount lo hi gridSpacing of
        None \<Rightarrow> None
      | Some count \<Rightarrow> Some (ensureMax hi (spacingGenerated lo hi gridSpacing count)))"

text \<open>
  The zigzag loop \<open>for (let yi = 0; yi < yPoints.length; yi++)\<close>: \<open>yi\<close> is the row index and
  the list argument holds \<open>yPoints[yi], yPoints[yi + 1], ...\<close>. A grid point \<open>{ x, y }\<close> is
  a pair.
\<close>

fun zigzag :: "real list \<Rightarrow> nat \<Rightarrow> real list \<Rightarrow> (real \<times> real) list" where
  "zigzag xPoints yi [] = []"
| "zigzag xPoints yi (y # ys) =
     map (\<lambda>x. (x, y)) (if yi mod 2 = 0 then xPoints else rev xPoints) @
     zigzag xPoints (yi + 1) ys"

definition calculateProbeGrid ::
  "real \<Rightarrow> real \<Rightarrow> real \<Rightarrow> real \<Rightarrow> real \<Rightarrow> bool \<Rightarrow> int \<Rightarrow> int \<Rightarrow> (real \<times> real) list option" where
  "calculateProbeGrid minX' maxX' minY' maxY' gridSpacing usePointCount pointCountX pointCountY =
     (if usePointCount then
        Some (zigzag (countAxis minX' maxX' pointCountX) 0 (countAxis minY' maxY' pointCountY))
      else
        (case spacingAxis minX' maxX' gridSpacing of
           None \<Rightarrow> None
         | Some xPoints \<Rightarrow>
             (case spacingAxis minY' maxY' gridSpacing of
                None \<Rightarrow> None
              | Some yPoints \<Rightarrow> Some (zigzag xPoints 0 yPoints))))"


section \<open>G-code transformation (utils/gcodeTransformer.ts)\<close>

subsection \<open>Strings\<close>

text \<open>
  A string is a list of ASCII characters. \<open>trim\<close> and the class \<open>\s\<close> take the ASCII
  white space (tab, line feed, vertical tab, form feed, carriage return, space), and
  \<open>toUpperCase\<close> maps \<open>a..z\<close> to \<open>A..Z\<close>.
\<close>

definition isSpace :: "char \<Rightarrow> bool" where
  "isSpace c = (let n = (of_char c :: nat) in (9 \<le> n \<and> n \<le> 13) \<or> n = 32)"

definition isDigit :: "char \<Rightarrow> bool" where
  "isDigit c = (let n = (of_char c :: nat) in 48 \<le> n \<and> n \<le> 57)"

definition trim :: "string \<Rightarrow> string" where
  "trim s = rev (dropWhile isSpace (rev (dropWhile isSpace s)))"

definition toUpperChar :: "char \<Rightarrow> char" where
  "toUpperChar c =
     (let n = (of_char c :: nat) in if 97 \<le> n \<and> n \<le> 122 then char_of (n - 32) else c)"

definition toUpperCase :: "string \<Rightarrow> string" where
  "toUpperCase s = map toUpperChar s"

fun startsWith :: "string \<Rightarrow> string \<Rightarrow> bool" where
  "startsWith [] s = True"
| "startsWith (p # ps) [] = False"
| "startsWith (p # ps) (c # cs) = (p = c \<and> startsWith ps cs)"

text \<open>An unanchored match of a literal pattern: the pattern occurs somewhere in \<open>s\<close>.\<close>

fun containsText :: "string \<Rightarrow> string \<Rightarrow> bool" where
  "containsText p [] = startsWith p []"
| "containsText p (c # cs) = (startsWith p (c # cs) \<or> containsText p cs)"

text \<open>\<open>gcode.split('\n')\<close> and \<open>lines.join('\n')\<close>.\<close>

fun split :: "string \<Rightarrow> string list" where
  "split [] = [] # []"
| "split (c # cs) =
     (if c = CHR 0x0A then [] # split cs
      else (case split cs of [] \<Rightarrow> [c] # [] | l # ls \<Rightarrow> (c # l) # ls))"

fun join :: "string list \<Rightarrow> string" where
  "join [] = []"
| "join [l] = l"
| "join (l # ls) = l @ [CHR 0x0A] @ join ls"

subsection \<open>Numbers in text\<close>

definition digitValue :: "char \<Rightarrow> nat" where
  "digitValue c = of_char c - 48"

definition digitsValue :: "string \<Rightarrow> nat" where
  "digitsValue ds = foldl (\<lambda>a c. 10 * a + digitValue c) 0 ds"

text \<open>
  \<open>parseFloat\<close> on the literals that the coordinate patterns capture, \<open>-?\d+\.?\d*\<close>: the
  decimal value of the literal, which stands for the double nearest to it.
\<close>

definition parseFloat :: "string \<Rightarrow> real" where
  "parseFloat lit =
     (let neg = startsWith [CHR ''-''] lit;
          r = (if neg then tl lit else lit);
          ip = takeWhile isDigit r;
          rest = dropWhile isDigit r;
          fp = (if startsWith [CHR ''.''] rest then takeWhile isDigit (tl rest) else []);
          v = real (digitsValue ip) + real (digitsValue fp) / 10 ^ length fp
      in if neg then - v else v)"

text \<open>
  The capture group \<open>(-?\d+\.?\d*)\<close> (with the sign) or \<open>(\d+\.?\d*)\<close> (without) matched
  at the start of \<open>r\<close>: the captured literal, or \<open>None\<close> when there is no match here.
\<close>

definition matchNumber :: "bool \<Rightarrow> string \<Rightarrow> string option" where
  "matchNumber signed r =
     (let neg = (signed \<and> startsWith [CHR ''-''] r \<and> tl r \<noteq> [] \<and> isDigit (hd (tl r)));
          r1 = (if neg then tl r else r);
          ip = takeWhile isDigit r1;
          rest = dropWhile isDigit r1
      in if ip = [] then None
         else Some ((if neg then [CHR ''-''] else []) @ ip @
                    (if startsWith [CHR ''.''] rest then CHR ''.'' # takeWhile isDigit (tl rest)
                     else [])))"

text \<open>
  \<open>s.match(/L(-?\d+\.?\d*)/)\<close> for an axis letter \<open>L\<close>: the capture of the leftmost match.
\<close>

fun matchField :: "char \<Rightarrow> bool \<Rightarrow> string \<Rightarrow> string option" where
  "matchField L signed [] = None"
| "matchField L signed (c # cs) =
     (if c = L then
        (case matchNumber signed cs of
           Some lit \<Rightarrow> Some lit
         | None \<Rightarrow> matchField L signed cs)
      else matchField L signed cs)"

text \<open>The decimal digits of a natural number.\<close>

fun digitsOf :: "nat \<Rightarrow> string" where
  "digitsOf n = (if n < 10 then [char_of (48 + n)] else digitsOf (n div 10) @ [char_of (48 + n mod 10)])"

declare digitsOf.simps [simp del]

text \<open>
  \<open>v.toFixed(d)\<close> as text, for magnitudes below \<open>10^21\<close>: the sign, the integer digits and
  \<open>d\<close> fraction digits of the magnitude of the double \<open>v\<close>, rounded to \<open>d\<close> decimals (the
  larger value on a tie).
\<close>

definition toFixed :: "nat \<Rightarrow> real \<Rightarrow> string" where
  "toFixed d v =
     (let w = toDouble v;
          n = nat \<lfloor>\<bar>w\<bar> * 10 ^ d + 1 / 2\<rfloor>;
          fp = digitsOf (n mod 10 ^ d)
      in (if w < 0 then [CHR ''-''] else []) @ digitsOf (n div 10 ^ d) @
         (if d = 0 then [] else CHR ''.'' # replicate (d - length fp) CHR ''0'' @ fp))"

subsection \<open>Parsing a line\<close>

datatype MoveType = G0 | G1 | G2 | G3 | Other

text \<open>
  \<open>ParsedMove\<close>: the fields \<open>type\<close>, \<open>x\<close>, \<open>y\<close>, \<open>z\<close>, \<open>f\<close> are called \<open>moveType\<close>,
  \<open>moveX\<close>, \<open>moveY\<close>, \<open>moveZ\<close>, \<open>moveF\<close>; an optional field that is \<open>undefined\<close> is \<open>None\<close>.
\<close>

record ParsedMove =
  moveType :: MoveType
  originalLine :: string
  moveX :: "real option"
  moveY :: "real option"
  moveZ :: "real option"
  moveF :: "real option"
  hasX :: bool
  hasY :: bool
  hasZ :: bool

record TransformOptions =
  segmentLength :: real
  warnOutsideBounds :: bool

text \<open>The class \<open>(?:\s|X|Y|Z|F)\<close> at the start of \<open>r\<close>.\<close>

definition separatorAhead :: "string \<Rightarrow> bool" where
  "separatorAhead r =
     (case r of [] \<Rightarrow> False
      | c # _ \<Rightarrow> isSpace c \<or> c = CHR ''X'' \<or> c = CHR ''Y'' \<or> c = CHR ''Z'' \<or> c = CHR ''F'')"

text \<open>\<open>/^G0?d(?:\s|X|Y|Z|F)/\<close> for the digit \<open>d\<close>: \<open>Gd\<close> or \<open>G0d\<close>, then the class.\<close>

definition motionMatch :: "char \<Rightarrow> string \<Rightarrow> bool" where
  "motionMatch d t =
     ((startsWith [CHR ''G'', CHR ''0'', d] t \<and> separatorAhead (drop 3 t)) \<or>
      (startsWith [CHR ''G'', d] t \<and> separatorAhead (drop 2 t)))"

definition parseGcodeLine :: "string \<Rightarrow> real \<Rightarrow> real \<Rightarrow> real \<Rightarrow> ParsedMove" where
  "parseGcodeLine line curX curY curZ =
     (let trimmed = toUpperCase (trim line);
          g0Match = motionMatch CHR ''0'' trimmed;
          g1Match = motionMatch CHR ''1'' trimmed
      in if \<not> g0Match \<and> \<not> g1Match then
           \<lparr>moveType = Other, originalLine = line, moveX = None, moveY = None, moveZ = None,
            moveF = None, hasX = False, hasY = False, hasZ = False\<rparr>
         else
           let xMatch = matchField CHR ''X'' True trimmed;
               yMatch = matchField CHR ''Y'' True trimmed;
               zMatch = matchField CHR ''Z'' True trimmed;
               fMatch = matchField CHR ''F'' False trimmed
           in \<lparr>moveType = (if g0Match then G0 else G1),
               originalLine = line,
               moveX = Some (case xMatch of Some lit \<Rightarrow> parseFloat lit | None \<Rightarrow> curX),
               moveY = Some (case yMatch of Some lit \<Rightarrow> parseFloat lit | None \<Rightarrow> curY),
               moveZ = Some (case zMatch of Some lit \<Rightarrow> parseFloat lit | None \<Rightarrow> curZ),
               moveF = (case fMatch of Some lit \<Rightarrow> Some (parseFloat lit) | None \<Rightarrow> None),
               hasX = (xMatch \<noteq> None), hasY = (yMatch \<noteq> None), hasZ = (zMatch \<noteq> None)\<rparr>)"

subsection \<open>Segmenting and rebuilding a move\<close>

text \<open>\<open>distance2D\<close>; the square \<open>d ** 2\<close> is the rounded product \<open>d * d\<close>.\<close>

definition distance2D :: "real \<Rightarrow> real \<Rightarrow> real \<Rightarrow> real \<Rightarrow> real" where
  "distance2D x1 y1 x2 y2 =
     dsqrt (dadd (dmul (dsub x2 x1) (dsub x2 x1)) (dmul (dsub y2 y1) (dsub y2 y1)))"

text \<open>A segment end \<open>{ x, y, z }\<close> is a triple.\<close>

type_synonym Segment = "real \<times> real \<times> real"

text \<open>
  \<open>segmentLine\<close>. \<open>Math.ceil(dist / segmentLength)\<close> is the ceiling of the rounded quotient
  of two doubles. The loop \<open>for (let i = 1; i <= numSegments; i++)\<close> runs over the integers
  \<open>1, ..., numSegments\<close> and not at all when \<open>numSegments < 1\<close>. For a segment length of zero
  (and a distance above it) \<open>Math.ceil(dist / segmentLength)\<close> is \<open>Infinity\<close> and the loop
  has no end: the call does not return, which is the value \<open>None\<close>.
\<close>

definition segmentLine ::
  "real \<Rightarrow> real \<Rightarrow> real \<Rightarrow> real \<Rightarrow> real \<Rightarrow> real \<Rightarrow> real \<Rightarrow> Segment list option" where
  "segmentLine startX startY startZ endX endY endZ segLen =
     (let dist = distance2D startX startY endX endY
      in if dist \<le> toDouble segLen then Some [(endX, endY, endZ)]
         else if segLen = 0 then None
         else
           let numSegments = \<lceil>ddiv dist segLen\<rceil>
           in Some (map (\<lambda>i. let t = ddiv (of_int i) (of_int numSegments)
                              in (toFixedNumber 4 (dadd startX (dmul t (dsub endX startX))),
                                  toFixedNumber 4 (dadd startY (dmul t (dsub endY startY))),
                                  toFixedNumber 4 (dadd startZ (dmul t (dsub endZ startZ)))))
                        [1..numSegments]))"

definition moveTypeText :: "MoveType \<Rightarrow> string" where
  "moveTypeText t =
     (case t of G0 \<Rightarrow> ''G0'' | G1 \<Rightarrow> ''G1'' | G2 \<Rightarrow> ''G2'' | G3 \<Rightarrow> ''G3'' | Other \<Rightarrow> ''other'')"

text \<open>
  \<open>buildGcodeLine\<close>. The feed rate is written by the template literal \<open>F${f}\<close>, that is by
  the conversion of a number to a string of JavaScript, which is the parameter
  \<open>numberToString\<close> of the model.
\<close>

definition buildGcodeLine ::
  "(real \<Rightarrow> string) \<Rightarrow> MoveType \<Rightarrow> real option \<Rightarrow> real option \<Rightarrow> real \<Rightarrow> real option \<Rightarrow> bool \<Rightarrow> bool \<Rightarrow> string" where
  "buildGcodeLine numberToString type x y z f hasX' hasY' =
     moveTypeText type @
     (case x of Some xv \<Rightarrow> if hasX' then '' X'' @ toFixed 4 xv else [] | None \<Rightarrow> []) @
     (case y of Some yv \<Rightarrow> if hasY' then '' Y'' @ toFixed 4 yv else [] | None \<Rightarrow> []) @
     '' Z'' @ toFixed 4 z @
     (case f of Some fv \<Rightarrow> '' F'' @ numberToString fv | None \<Rightarrow> [])"

text \<open>
  The loop of \<open>transformLine\<close> over the segments: \<open>lines\<close> holds the lines built so far, and
  the feed rate goes to the line built while \<open>lines\<close> is empty.
\<close>

fun segmentLines ::
  "(real \<Rightarrow> string) \<Rightarrow> MoveType \<Rightarrow> real option \<Rightarrow> HeightMapData \<Rightarrow> string list \<Rightarrow> Segment list \<Rightarrow> string list" where
  "segmentLines numberToString type f mapData lines [] = lines"
| "segmentLines numberToString type f mapData lines ((sx, sy, sz) # segments) =
     (let zOffset = getZOffset sx sy (Some mapData);
          adjustedZ = dadd sz zOffset;
          feedRate = (if length lines = 0 then f else None)
      in segmentLines numberToString type f mapData
           (lines @ [buildGcodeLine numberToString type (Some sx) (Some sy) adjustedZ feedRate True True])
           segments)"

text \<open>\<open>v ?? d\<close>\<close>

definition orElse :: "real option \<Rightarrow> real \<Rightarrow> real" where
  "orElse v d = (case v of Some a \<Rightarrow> a | None \<Rightarrow> d)"

definition transformLine ::
  "(real \<Rightarrow> string) \<Rightarrow> ParsedMove \<Rightarrow> real \<Rightarrow> real \<Rightarrow> real \<Rightarrow> HeightMapData \<Rightarrow> TransformOptions \<Rightarrow> string list option" where
  "transformLine numberToString parsed curX curY curZ mapData options =
     (if moveType parsed = Other then Some [originalLine parsed]
      else
        let targetX = orElse (moveX parsed) curX;
            targetY = orElse (moveY parsed) curY;
            targetZ = orElse (moveZ parsed) curZ
        in if \<not> hasZ parsed \<and> \<not> hasX parsed \<and> \<not> hasY parsed then Some [originalLine parsed]
           else if \<not> hasX parsed \<and> \<not> hasY parsed then
             (let zOffset = getZOffset curX curY (Some mapData);
                  adjustedZ = dadd targetZ zOffset
              in Some [buildGcodeLine numberToString (moveType parsed) None None adjustedZ
                         (moveF parsed) False False])
           else
             let dist = distance2D curX curY targetX targetY
             in if dist \<le> toDouble (segmentLength options) then
                  (let zOffset = getZOffset targetX targetY (Some mapData);
                       adjustedZ = dadd targetZ zOffset
                   in Some [buildGcodeLine numberToString (moveType parsed) (Some targetX)
                              (Some targetY) adjustedZ (moveF parsed) (hasX parsed) (hasY parsed)])
                else
                  (case segmentLine curX curY curZ targetX targetY targetZ
                          (segmentLength options) of
                     None \<Rightarrow> None
                   | Some segments \<Rightarrow>
                       Some (segmentLines numberToString (moveType parsed) (moveF parsed)
                               mapData [] segments)))"

subsection \<open>The line-processing state machine of transformGcode\<close>

text \<open>The local variables of \<open>transformGcode\<close> that the loop over the lines updates.\<close>

record EngineState =
  transformedLines :: "string list"
  warnings :: "string list"
  currentX :: real
  currentY :: real
  currentZ :: real
  absoluteMode :: bool
  outsideBoundsWarned :: bool

definition boundsWarning :: string where
  "boundsWarning = ''Warning: G-code extends outside height map bounds. Z-offset will be extrapolated from nearest edge points.''"

text \<open>
  The header. The bounds are written by the conversion of a number to a string
  (\<open>numberToString\<close>); the number of points is a natural number, written in decimal.
\<close>

definition headerLines :: "(real \<Rightarrow> string) \<Rightarrow> HeightMapData \<Rightarrow> string list" where
  "headerLines numberToString mapData =
     [''; Height Map Applied by gSender'',
      ''; Map bounds: X['' @ numberToString (minX (bounds mapData)) @ '', '' @
        numberToString (maxX (bounds mapData)) @ ''] Y['' @
        numberToString (minY (bounds mapData)) @ '', '' @
        numberToString (maxY (bounds mapData)) @ '']'',
      ''; Grid points: '' @ digitsOf (length (points mapData)),
      []]"

definition initialState :: "(real \<Rightarrow> string) \<Rightarrow> HeightMapData \<Rightarrow> EngineState" where
  "initialState numberToString mapData =
     \<lparr>transformedLines = headerLines numberToString mapData, warnings = [],
      currentX = 0, currentY = 0, currentZ = 0, absoluteMode = True,
      outsideBoundsWarned = False\<rparr>"

text \<open>\<open>transformedLines.push(line); continue;\<close>\<close>

definition passThrough :: "EngineState \<Rightarrow> string \<Rightarrow> EngineState" where
  "passThrough st line = st\<lparr>transformedLines := transformedLines st @ [line]\<rparr>"

text \<open>The bounds check of the loop body, on the parsed line.\<close>

definition checkBounds :: "TransformOptions \<Rightarrow> HeightMapData \<Rightarrow> EngineState \<Rightarrow> ParsedMove \<Rightarrow> EngineState" where
  "checkBounds options mapData st parsed =
     (if warnOutsideBounds options \<and> \<not> outsideBoundsWarned st \<and> (hasX parsed \<or> hasY parsed) then
        (let targetX = orElse (moveX parsed) (currentX st);
             targetY = orElse (moveY parsed) (currentY st)
         in if \<not> isWithinBounds targetX targetY mapData then
              st\<lparr>warnings := warnings st @ [boundsWarning], outsideBoundsWarned := True\<rparr>
            else st)
      else st)"

text \<open>One iteration of \<open>for (const line of lines)\<close>; \<open>None\<close> when \<open>transformLine\<close> does not return.\<close>

definition processLine ::
  "(real \<Rightarrow> string) \<Rightarrow> HeightMapData \<Rightarrow> TransformOptions \<Rightarrow> EngineState \<Rightarrow> string \<Rightarrow> EngineState option" where
  "processLine numberToString mapData options st line =
     (let trimmed = trim line
      in if trimmed = [] \<or> startsWith '';'' trimmed \<or> startsWith ''('' trimmed then
           Some (passThrough st line)
         else if containsText ''G90'' (toUpperCase trimmed) then
           Some (passThrough (st\<lparr>absoluteMode := True\<rparr>) line)
         else if containsText ''G91'' (toUpperCase trimmed) then
           Some (passThrough (st\<lparr>absoluteMode := False\<rparr>) line)
         else if \<not> absoluteMode st then Some (passThrough st line)
         else
           let parsed = parseGcodeLine line (currentX st) (currentY st) (currentZ st);
               st1 = checkBounds options mapData st parsed
           in if moveType parsed = G0 \<or> moveType parsed = G1 then
                (case transformLine numberToString parsed (currentX st1) (currentY st1)
                        (currentZ st1) mapData options of
                   None \<Rightarrow> None
                 | Some newLines \<Rightarrow>
                     Some (st1\<lparr>transformedLines := transformedLines st1 @ newLines,
                               currentX := orElse (moveX parsed) (currentX st1),
                               currentY := orElse (moveY parsed) (currentY st1),
                               currentZ := orElse (moveZ parsed) (currentZ st1)\<rparr>))
              else Some (passThrough st1 line))"

fun processLines ::
  "(real \<Rightarrow> string) \<Rightarrow> HeightMapData \<Rightarrow> TransformOptions \<Rightarrow> EngineState \<Rightarrow> string list \<Rightarrow> EngineState option" where
  "processLines numberToString mapData options st [] = Some st"
| "processLines numberToString mapData options st (line # lines) =
     (case processLine numberToString mapData options st line of
        None \<Rightarrow> None
      | Some st' \<Rightarrow> processLines numberToString mapData options st' lines)"

record TransformResult =
  transformedGcode :: string
  resultWarnings :: "string list"

definition transformGcode ::
  "(real \<Rightarrow> string) \<Rightarrow> string \<Rightarrow> HeightMapData \<Rightarrow> TransformOptions \<Rightarrow> TransformResult option" where
  "transformGcode numberToString gcode mapData options =
     (case processLines numberToString mapData options (initialState numberToString mapData)
             (split gcode) of
        None \<Rightarrow> None
      | Some st \<Rightarrow>
          Some \<lparr>transformedGcode = join (transformedLines st), resultWarnings = warnings st\<rparr>)"

subsection \<open>How the loop body classifies a line\<close>

text \<open>
  The tests of the loop body, by name. A line is \<open>skipped\<close> when it is blank or a
  comment; a line that is not skipped is an absolute switch when its trimmed text matches
  \<open>/G90/i\<close>, and an incremental switch when it matches \<open>/G91/i\<close> and not \<open>/G90/i\<close>
  (the test for G90 comes first). A line is parsed when it passes these tests in the
  absolute mode, and it is a motion line when \<open>parseGcodeLine\<close> then gives it the type G0
  or G1.
\<close>

definition skipped :: "string \<Rightarrow> bool" where
  "skipped line =
     (trim line = [] \<or> startsWith '';'' (trim line) \<or> startsWith ''('' (trim line))"

definition absoluteSwitch :: "string \<Rightarrow> bool" where
  "absoluteSwitch line = (\<not> skipped line \<and> containsText ''G90'' (toUpperCase (trim line)))"

definition incrementalSwitch :: "string \<Rightarrow> bool" where
  "incrementalSwitch line =
     (\<not> skipped line \<and> \<not> containsText ''G90'' (toUpperCase (trim line)) \<and>
      containsText ''G91'' (toUpperCase (trim line)))"

definition parsedLine :: "EngineState \<Rightarrow> string \<Rightarrow> bool" where
  "parsedLine st line =
     (\<not> skipped line \<and> \<not> absoluteSwitch line \<and> \<not> incrementalSwitch line \<and> absoluteMode st)"

definition parsedMove :: "EngineState \<Rightarrow> string \<Rightarrow> ParsedMove" where
  "parsedMove st line = parseGcodeLine line (currentX st) (currentY st) (currentZ st)"

definition motionLine :: "EngineState \<Rightarrow> string \<Rightarrow> bool" where
  "motionLine st line = (parsedLine st line \<and> moveType (parsedMove st line) \<noteq> Other)"

text \<open>
  The bounds check fires on a parsed line that carries an X or a Y word and whose target
  \<open>(x, y)\<close> is outside the bounds of the map, while the warnings are enabled and none has
  been given.
\<close>

definition xyTargetOutside :: "HeightMapData \<Rightarrow> EngineState \<Rightarrow> string \<Rightarrow> bool" where
  "xyTargetOutside mapData st line =
     (let parsed = parsedMove st line
      in (hasX parsed \<or> hasY parsed) \<and>
         \<not> isWithinBounds (orElse (moveX parsed) (currentX st))
              (orElse (moveY parsed) (currentY st)) mapData)"

definition warns :: "TransformOptions \<Rightarrow> HeightMapData \<Rightarrow> EngineState \<Rightarrow> string \<Rightarrow> bool" where
  "warns options mapData st line =
     (warnOutsideBounds options \<and> \<not> outsideBoundsWarned st \<and> parsedLine st line \<and>
      xyTargetOutside mapData st line)"

subsection \<open>Auxiliary notions for the properties\<close>


text \<open>The warnings hold one bounds warning when the flag is set, and none otherwise.\<close>

definition warnedOnce :: "EngineState \<Rightarrow> bool" where
  "warnedOnce st =
     (if outsideBoundsWarned st then warnings st = [boundsWarning] else warnings st = [])"


section \<open>Example inputs\<close>

definition unitSquareMap :: HeightMapData where
  "unitSquareMap =
     \<lparr>bounds = \<lparr>minX = 0, maxX = 1, minY = 0, maxY = 1\<rparr>,
      points = [\<lparr>px = 0, py = 0, pz = 0\<rparr>, \<lparr>px = 1, py = 0, pz = 1\<rparr>,
                \<lparr>px = 1, py = 1, pz = 2\<rparr>, \<lparr>px = 0, py = 1, pz = 1\<rparr>]\<rparr>"

definition unitSquareCell :: Surrounding where
  "unitSquareCell =
     \<lparr>p00 = \<lparr>px = 0, py = 0, pz = 0\<rparr>, p10 = \<lparr>px = 1, py = 0, pz = 1\<rparr>,
      p01 = \<lparr>px = 0, py = 1, pz = 1\<rparr>, p11 = \<lparr>px = 1, py = 1, pz = 2\<rparr>\<rparr>"

definition partialProbeMap :: HeightMapData where
  "partialProbeMap =
     \<lparr>bounds = \<lparr>minX = 0, maxX = 2, minY = 0, maxY = 1\<rparr>,
      points = [\<lparr>px = 0, py = 0, pz = 1\<rparr>, \<lparr>px = 1, py = 0, pz = 2\<rparr>,
                \<lparr>px = 2, py = 0, pz = 3\<rparr>, \<lparr>px = 2, py = 1, pz = 4\<rparr>,
                \<lparr>px = 1, py = 1, pz = 5\<rparr>]\<rparr>"


text \<open>
  A conversion of numbers to text for the examples: the decimal digits of the integer
  part, which is how JavaScript writes a natural number below \<open>10^21\<close>.
\<close>

definition plainNumber :: "real \<Rightarrow> string" where
  "plainNumber v = digitsOf (nat \<lfloor>v\<rfloor>)"

text \<open>The default value of the parameter \<open>options\<close> of \<open>transformGcode\<close>.\<close>

definition defaultOptions :: TransformOptions where
  "defaultOptions = \<lparr>segmentLength = 1, warnOutsideBounds = True\<rparr>"

text \<open>A map over the square from \<open>(0, 0)\<close> to \<open>(100, 100)\<close> that rises by 1 along x.\<close>

definition rampMap :: HeightMapData where
  "rampMap =
     \<lparr>bounds = \<lparr>minX = 0, maxX = 100, minY = 0, maxY = 100\<rparr>,
      points = [\<lparr>px = 0, py = 0, pz = 0\<rparr>, \<lparr>px = 100, py = 0, pz = 1\<rparr>,
                \<lparr>px = 100, py = 100, pz = 1\<rparr>, \<lparr>px = 0, py = 100, pz = 0\<rparr>]\<rparr>"

text \<open>A flat map over the square from \<open>(10, 10)\<close> to \<open>(20, 20)\<close>, which leaves the origin outside.\<close>

definition offsetMap :: HeightMapData where
  "offsetMap =
     \<lparr>bounds = \<lparr>minX = 10, maxX = 20, minY = 10, maxY = 20\<rparr>,
      points = [\<lparr>px = 10, py = 10, pz = 0\<rparr>, \<lparr>px = 20, py = 10, pz = 0\<rparr>,
                \<lparr>px = 20, py = 20, pz = 0\<rparr>, \<lparr>px = 10, py = 20, pz = 0\<rparr>]\<rparr>"







text \<open>
  A map of 3 by 2 points whose bounds reach beyond the points along x: the points lie on
  \<open>x = 0, 1, 2\<close> and the bounds run from -5 to 7. The surface is flat over the cell from
  \<open>x = 0\<close> to \<open>x = 1\<close> and rises by 10 over the cell from \<open>x = 1\<close> to \<open>x = 2\<close>.
\<close>

definition wideMap :: HeightMapData where
  "wideMap =
     \<lparr>bounds = \<lparr>minX = - 5, maxX = 7, minY = 0, maxY = 1\<rparr>,
      points = [\<lparr>px = 0, py = 0, pz = 0\<rparr>, \<lparr>px = 1, py = 0, pz = 0\<rparr>,
                \<lparr>px = 2, py = 0, pz = 10\<rparr>, \<lparr>px = 2, py = 1, pz = 10\<rparr>,
                \<lparr>px = 1, py = 1, pz = 0\<rparr>, \<lparr>px = 0, py = 1, pz = 0\<rparr>]\<rparr>"

definition wideLowCell :: Surrounding where
  "wideLowCell =
     \<lparr>p00 = \<lparr>px = 0, py = 0, pz = 0\<rparr>, p10 = \<lparr>px = 1, py = 0, pz = 0\<rparr>,
      p01 = \<lparr>px = 0, py = 1, pz = 0\<rparr>, p11 = \<lparr>px = 1, py = 1, pz = 0\<rparr>\<rparr>"

definition wideHighCell :: Surrounding where
  "wideHighCell =
     \<lparr>p00 = \<lparr>px = 1, py = 0, pz = 0\<rparr>, p10 = \<lparr>px = 2, py = 0, pz = 10\<rparr>,
      p01 = \<lparr>px = 1, py = 1, pz = 0\<rparr>, p11 = \<lparr>px = 2, py = 1, pz = 10\<rparr>\<rparr>"


section \<open>Properties of the double arithmetic\<close>

text \<open>Powers of two with an integer exponent.\<close>

lemma pow2_pos [simp]: "0 < (2::real) powi k"
  by (simp add: power_int_def)

lemma pow2_mono: "a \<le> b \<Longrightarrow> (2::real) powi a \<le> 2 powi b"
  by (rule power_int_increasing) simp_all

lemma pow2_less_cancel: "(2::real) powi a < 2 powi b \<Longrightarrow> a < b"
  using pow2_mono[of b a] by (cases "a < b") auto

lemma pow2_add: "(2::real) powi (a + b) = 2 powi a * 2 powi b"
  by (simp add: power_int_add)

lemma pow2_nat: "0 \<le> k \<Longrightarrow> (2::real) powi k = of_int (2 ^ nat k)"
  by (simp add: power_int_def)

text \<open>The binary exponent brackets the magnitude, and it is the only integer that does.\<close>

lemma binaryExponent_bounds:
  assumes "x \<noteq> 0"
  shows "2 powi (binaryExponent x) \<le> \<bar>x\<bar> \<and> \<bar>x\<bar> < 2 powi (binaryExponent x + 1)"
proof (cases "1 \<le> \<bar>x\<bar>")
  case True
  define n where "n = \<lfloor>\<bar>x\<bar>\<rfloor>"
  have n1: "1 \<le> n" using True unfolding n_def by linarith
  then have n0: "0 < n" by simp
  have bl: "1 \<le> bitlen n" using n0 by (auto simp: bitlen_alt_def)
  from bitlen_bounds[OF n0] have lo: "2 ^ nat (bitlen n - 1) \<le> n" and hi: "n < 2 ^ nat (bitlen n)"
    by auto
  have e: "binaryExponent x = bitlen n - 1" using True by (simp add: binaryExponent_def n_def)
  have a: "(2::real) powi (bitlen n - 1) = of_int (2 ^ nat (bitlen n - 1))"
    using bl by (intro pow2_nat) simp
  have b: "(2::real) powi (bitlen n - 1 + 1) = of_int (2 ^ nat (bitlen n))"
    using bl by (simp add: pow2_nat)
  have "of_int n \<le> \<bar>x\<bar>" unfolding n_def by linarith
  moreover have "real_of_int (2 ^ nat (bitlen n - 1)) \<le> of_int n" using lo by (simp only: of_int_le_iff)
  ultimately have c: "(2::real) powi (bitlen n - 1) \<le> \<bar>x\<bar>" unfolding a by linarith
  have "n + 1 \<le> 2 ^ nat (bitlen n)" using hi by simp
  then have "real_of_int (n + 1) \<le> of_int (2 ^ nat (bitlen n))" by (simp only: of_int_le_iff)
  moreover have "\<bar>x\<bar> < of_int (n + 1)" unfolding n_def by linarith
  ultimately have d: "\<bar>x\<bar> < (2::real) powi (bitlen n - 1 + 1)" unfolding b by linarith
  show ?thesis unfolding e using c d by simp
next
  case False
  define y where "y = 1 / \<bar>x\<bar>"
  have xp: "0 < \<bar>x\<bar>" using assms by simp
  have y1: "1 < y" using False xp unfolding y_def by simp
  define m where "m = \<lceil>y\<rceil> - 1"
  have m1: "1 \<le> m" using y1 unfolding m_def by linarith
  then have m0: "0 < m" by simp
  have bl: "1 \<le> bitlen m" using m0 by (auto simp: bitlen_alt_def)
  from bitlen_bounds[OF m0] have lo: "2 ^ nat (bitlen m - 1) \<le> m" and hi: "m < 2 ^ nat (bitlen m)"
    by auto
  have e: "binaryExponent x = - bitlen m" using False by (simp add: binaryExponent_def m_def y_def)
  have ym: "of_int m < y" "y \<le> of_int m + 1" unfolding m_def by linarith+
  have "m + 1 \<le> 2 ^ nat (bitlen m)" using hi by simp
  then have "real_of_int (m + 1) \<le> of_int (2 ^ nat (bitlen m))" by (simp only: of_int_le_iff)
  then have "of_int m + 1 \<le> (2::real) ^ nat (bitlen m)" by simp
  then have yhi: "y \<le> 2 ^ nat (bitlen m)" using ym by linarith
  have "real_of_int (2 ^ nat (bitlen m - 1)) \<le> of_int m" using lo by (simp only: of_int_le_iff)
  then have "(2::real) ^ nat (bitlen m - 1) \<le> of_int m" by simp
  then have ylo: "2 ^ nat (bitlen m - 1) < y" using ym by linarith
  have p1: "(2::real) powi (- bitlen m) = 1 / 2 ^ nat (bitlen m)"
  proof -
    have "(2::real) powi (- bitlen m) = inverse (2 powi (bitlen m))" by (rule power_int_minus)
    also have "(2::real) powi (bitlen m) = 2 ^ nat (bitlen m)" using bl by (simp add: power_int_def)
    finally show ?thesis by (simp add: inverse_eq_divide)
  qed
  have p2: "(2::real) powi (- bitlen m + 1) = 1 / 2 ^ nat (bitlen m - 1)"
  proof -
    have "- bitlen m + 1 = - (bitlen m - 1)" by simp
    then have "(2::real) powi (- bitlen m + 1) = inverse (2 powi (bitlen m - 1))"
      by (simp only: power_int_minus)
    also have "(2::real) powi (bitlen m - 1) = 2 ^ nat (bitlen m - 1)" using bl by (simp add: power_int_def)
    finally show ?thesis by (simp add: inverse_eq_divide)
  qed
  have c: "1 / 2 ^ nat (bitlen m) \<le> \<bar>x\<bar>"
  proof -
    have "1 / \<bar>x\<bar> \<le> 2 ^ nat (bitlen m)" using yhi by (simp add: y_def)
    then have "1 \<le> 2 ^ nat (bitlen m) * \<bar>x\<bar>" using xp by (simp add: pos_divide_le_eq)
    then show ?thesis by (simp add: pos_divide_le_eq mult.commute)
  qed
  have d: "\<bar>x\<bar> < 1 / 2 ^ nat (bitlen m - 1)"
  proof -
    have "2 ^ nat (bitlen m - 1) < 1 / \<bar>x\<bar>" using ylo by (simp add: y_def)
    then have "2 ^ nat (bitlen m - 1) * \<bar>x\<bar> < 1" using xp by (simp add: pos_less_divide_eq)
    then show ?thesis by (simp add: pos_less_divide_eq mult.commute)
  qed
  show ?thesis unfolding e p1 p2 using c d by simp
qed

lemma binaryExponent_unique:
  assumes "2 powi e \<le> \<bar>x\<bar>" "\<bar>x\<bar> < 2 powi (e + 1)"
  shows "binaryExponent x = e"
proof -
  have "0 < \<bar>x\<bar>" using assms(1) pow2_pos[of e] by linarith
  then have x0: "x \<noteq> 0" by simp
  note b = binaryExponent_bounds[OF x0]
  have "2 powi e < (2::real) powi (binaryExponent x + 1)" using assms(1) b by linarith
  then have a: "e < binaryExponent x + 1" by (rule pow2_less_cancel)
  have "2 powi (binaryExponent x) < (2::real) powi (e + 1)" using assms(2) b by linarith
  then have "binaryExponent x < e + 1" by (rule pow2_less_cancel)
  then show ?thesis using a by simp
qed

text \<open>Rounding to an integer: the value near an integer, the error, and monotonicity.\<close>

lemma roundHalfEven_near: "\<bar>r - of_int k\<bar> < 1 / 2 \<Longrightarrow> roundHalfEven r = k"
proof -
  assume a: "\<bar>r - of_int k\<bar> < 1 / 2"
  consider "of_int k \<le> r" | "r < of_int k" by linarith
  then show ?thesis
  proof cases
    case 1
    then have "\<lfloor>r\<rfloor> = k" using a by linarith
    then show ?thesis using a 1 by (simp add: roundHalfEven_def Let_def)
  next
    case 2
    then have f: "\<lfloor>r\<rfloor> = k - 1" using a by linarith
    have "1 / 2 < r - of_int (k - 1)" using a 2 by simp
    then show ?thesis unfolding roundHalfEven_def Let_def f by simp
  qed
qed

lemma roundHalfEven_int [simp]: "roundHalfEven (of_int k) = k"
  by (rule roundHalfEven_near) simp

lemma roundHalfEven_close: "\<bar>of_int (roundHalfEven r) - r\<bar> \<le> 1 / 2"
  unfolding roundHalfEven_def Let_def
  by (auto; linarith)

lemma roundHalfEven_ge: "of_int k \<le> r \<Longrightarrow> k \<le> roundHalfEven r"
proof -
  assume "of_int k \<le> r"
  then have "k \<le> \<lfloor>r\<rfloor>" by linarith
  then show ?thesis unfolding roundHalfEven_def Let_def by auto
qed

lemma roundHalfEven_le: "r \<le> of_int k \<Longrightarrow> roundHalfEven r \<le> k"
proof -
  assume a: "r \<le> of_int k"
  show ?thesis
  proof (cases "r = of_int k")
    case True
    then show ?thesis by simp
  next
    case False
    then have "\<lfloor>r\<rfloor> + 1 \<le> k" using a by linarith
    then show ?thesis unfolding roundHalfEven_def Let_def by auto
  qed
qed

lemma toDouble_zero [simp]: "toDouble 0 = 0"
  by (simp add: toDouble_def)

text \<open>
  The double nearest to a given number, from its exponent \<open>e\<close> and the integer \<open>k\<close>
  nearest to its significand scaled by \<open>2^(52 - e)\<close>.
\<close>

lemma toDouble_eval:
  assumes "2 powi e \<le> \<bar>x\<bar>" "\<bar>x\<bar> < 2 powi (e + 1)" "\<bar>x * 2 powi (52 - e) - of_int k\<bar> < 1 / 2"
  shows "toDouble x = of_int k * 2 powi (e - 52)"
proof -
  have "0 < \<bar>x\<bar>" using assms(1) pow2_pos[of e] by linarith
  then have x0: "x \<noteq> 0" by simp
  show ?thesis
    using x0 binaryExponent_unique[OF assms(1,2)] roundHalfEven_near[OF assms(3)]
    by (simp add: toDouble_def Let_def)
qed

text \<open>The scaled significand lies between \<open>2^52\<close> and \<open>2^53\<close>; rounding keeps the sign.\<close>

lemma scaled_bounds:
  assumes "x \<noteq> 0"
  shows "2 ^ 52 \<le> \<bar>x\<bar> * 2 powi (52 - binaryExponent x)"
    and "\<bar>x\<bar> * 2 powi (52 - binaryExponent x) < 2 ^ 53"
proof -
  let ?e = "binaryExponent x"
  note b = binaryExponent_bounds[OF assms]
  have "(2::real) ^ 52 = 2 powi ?e * 2 powi (52 - ?e)"
    by (simp flip: pow2_add)
  also have "\<dots> \<le> \<bar>x\<bar> * 2 powi (52 - ?e)"
    using b by (intro mult_right_mono) simp_all
  finally show "2 ^ 52 \<le> \<bar>x\<bar> * 2 powi (52 - ?e)" .
  have "\<bar>x\<bar> * 2 powi (52 - ?e) < 2 powi (?e + 1) * 2 powi (52 - ?e)"
    using b by (intro mult_strict_right_mono) simp_all
  also have "\<dots> = 2 ^ 53" by (simp flip: pow2_add)
  finally show "\<bar>x\<bar> * 2 powi (52 - ?e) < 2 ^ 53" .
qed

lemma toDouble_pos: "0 < x \<Longrightarrow> 0 < toDouble x"
proof -
  assume x: "0 < x"
  then have x0: "x \<noteq> 0" by simp
  have "of_int (2 ^ 52) \<le> x * 2 powi (52 - binaryExponent x)"
    using scaled_bounds(1)[OF x0] x by simp
  from roundHalfEven_ge[OF this] have "0 < roundHalfEven (x * 2 powi (52 - binaryExponent x))"
    by simp
  then show ?thesis using x0 by (simp add: toDouble_def Let_def)
qed

lemma toDouble_neg: "x < 0 \<Longrightarrow> toDouble x < 0"
proof -
  assume x: "x < 0"
  then have x0: "x \<noteq> 0" by simp
  have "x * 2 powi (52 - binaryExponent x) \<le> of_int (- (2 ^ 52))"
    using scaled_bounds(1)[OF x0] x by simp
  from roundHalfEven_le[OF this] have "roundHalfEven (x * 2 powi (52 - binaryExponent x)) < 0"
    by simp
  then show ?thesis using x0 by (simp add: toDouble_def Let_def mult_neg_pos)
qed

lemma toDouble_eq_0_iff: "(toDouble x = 0) = (x = 0)"
proof -
  consider "x = 0" | "0 < x" | "x < 0" by linarith
  then show ?thesis
  proof cases
    case 1
    then show ?thesis by simp
  next
    case 2
    then show ?thesis using toDouble_pos[OF 2] by auto
  next
    case 3
    then show ?thesis using toDouble_neg[OF 3] by auto
  qed
qed

lemma toDouble_pos_iff: "(0 < toDouble x) = (0 < x)"
proof -
  consider "x = 0" | "0 < x" | "x < 0" by linarith
  then show ?thesis
  proof cases
    case 1
    then show ?thesis by simp
  next
    case 2
    then show ?thesis using toDouble_pos[OF 2] by auto
  next
    case 3
    then show ?thesis using toDouble_neg[OF 3] by auto
  qed
qed

lemma toDouble_neg_iff: "(toDouble x < 0) = (x < 0)"
proof -
  consider "x = 0" | "0 < x" | "x < 0" by linarith
  then show ?thesis
  proof cases
    case 1
    then show ?thesis by simp
  next
    case 2
    then show ?thesis using toDouble_pos[OF 2] by auto
  next
    case 3
    then show ?thesis using toDouble_neg[OF 3] by auto
  qed
qed

declare toDouble_eq_0_iff [simp] toDouble_pos_iff [simp] toDouble_neg_iff [simp]

text \<open>The relative error of the rounding is at most \<open>2^(-53)\<close>.\<close>

lemma toDouble_close: "\<bar>toDouble x - x\<bar> \<le> \<bar>x\<bar> / 2 ^ 53"
proof (cases "x = 0")
  case True
  then show ?thesis by simp
next
  case False
  let ?e = "binaryExponent x"
  let ?s = "x * 2 powi (52 - ?e)"
  have inv: "(2::real) powi (52 - ?e) * 2 powi (?e - 52) = 1" by (simp flip: pow2_add)
  have "toDouble x - x = (of_int (roundHalfEven ?s) - ?s) * 2 powi (?e - 52)"
    using False inv by (simp add: toDouble_def Let_def algebra_simps)
  then have "\<bar>toDouble x - x\<bar> = \<bar>of_int (roundHalfEven ?s) - ?s\<bar> * 2 powi (?e - 52)"
    by (simp add: abs_mult)
  also have "\<dots> \<le> 1 / 2 * 2 powi (?e - 52)"
    using roundHalfEven_close[of ?s] by (intro mult_right_mono) simp_all
  also have "\<dots> = 2 powi ?e / 2 ^ 53"
  proof -
    have "(2::real) powi (?e - 52) = 2 powi ?e * 2 powi (- 52)"
      using pow2_add[of ?e "- 52"] by simp
    then show ?thesis by (simp add: power_int_minus_divide)
  qed
  also have "\<dots> \<le> \<bar>x\<bar> / 2 ^ 53"
    using binaryExponent_bounds[OF False] by (simp add: divide_right_mono)
  finally show ?thesis .
qed



text \<open>
  The numbers \<open>k * 2^j\<close> with \<open>|k| < 2^53\<close> are doubles: rounding leaves them as they are.
  Every rounded number is of this form, so rounding twice is rounding once.
\<close>

lemma toDouble_dyadic:
  assumes "\<bar>k\<bar> < 2 ^ 53"
  shows "toDouble (of_int k * 2 powi j) = of_int k * 2 powi j"
proof (cases "k = 0")
  case True
  then show ?thesis by simp
next
  case False
  define x :: real where "x = of_int k * 2 powi j"
  have x0: "x \<noteq> 0" using False by (simp add: x_def)
  let ?e = "binaryExponent x"
  have ax: "\<bar>x\<bar> = of_int \<bar>k\<bar> * 2 powi j" by (simp add: x_def abs_mult)
  have "real_of_int \<bar>k\<bar> < of_int (2 ^ 53)" using assms by (simp only: of_int_less_iff)
  then have "of_int \<bar>k\<bar> * 2 powi j < (2::real) ^ 53 * 2 powi j"
    by (intro mult_strict_right_mono) simp_all
  also have "\<dots> = 2 powi (53 + j)" using pow2_add[of 53 j] by simp
  finally have "\<bar>x\<bar> < 2 powi (53 + j)" unfolding ax .
  then have "2 powi ?e < (2::real) powi (53 + j)"
    using binaryExponent_bounds[OF x0] by linarith
  then have "?e < 53 + j" by (rule pow2_less_cancel)
  then have nn: "0 \<le> j + 52 - ?e" by simp
  have s: "x * 2 powi (52 - ?e) = of_int (k * 2 ^ nat (j + 52 - ?e))"
  proof -
    have "x * 2 powi (52 - ?e) = of_int k * (2 powi j * 2 powi (52 - ?e))"
      by (simp add: x_def)
    also have "2 powi j * (2::real) powi (52 - ?e) = 2 powi (j + 52 - ?e)"
      using pow2_add[of j "52 - ?e"] by (simp add: algebra_simps)
    also have "\<dots> = of_int (2 ^ nat (j + 52 - ?e))" using nn by (rule pow2_nat)
    finally show ?thesis by simp
  qed
  have r: "roundHalfEven (x * 2 powi (52 - ?e)) = k * 2 ^ nat (j + 52 - ?e)"
    unfolding s by (rule roundHalfEven_int)
  have "toDouble x = of_int (k * 2 ^ nat (j + 52 - ?e)) * 2 powi (?e - 52)"
    using x0 by (simp only: toDouble_def Let_def r if_False)
  also have "\<dots> = of_int k * (2 powi (j + 52 - ?e) * 2 powi (?e - 52))"
    using pow2_nat[OF nn] by simp
  also have "2 powi (j + 52 - ?e) * (2::real) powi (?e - 52) = 2 powi j"
    using pow2_add[of "j + 52 - ?e" "?e - 52"] by simp
  finally show ?thesis by (simp add: x_def)
qed

lemma toDouble_of_int: "\<bar>k\<bar> < 2 ^ 53 \<Longrightarrow> toDouble (of_int k) = of_int k"
  using toDouble_dyadic[of k 0] by simp

lemma toDouble_idem [simp]: "toDouble (toDouble x) = toDouble x"
proof (cases "x = 0")
  case True
  then show ?thesis by simp
next
  case False
  let ?e = "binaryExponent x"
  let ?K = "roundHalfEven (x * 2 powi (52 - ?e))"
  have d: "toDouble x = of_int ?K * 2 powi (?e - 52)" using False by (simp add: toDouble_def Let_def)
  have "\<bar>x * 2 powi (52 - ?e)\<bar> < 2 ^ 53"
    using scaled_bounds(2)[OF False] by (simp add: abs_mult)
  then have "x * 2 powi (52 - ?e) \<le> of_int (2 ^ 53)" "of_int (- (2 ^ 53)) \<le> x * 2 powi (52 - ?e)"
    by simp_all
  then have "?K \<le> 2 ^ 53" "- (2 ^ 53) \<le> ?K"
    using roundHalfEven_le roundHalfEven_ge by blast+
  then consider "\<bar>?K\<bar> < 2 ^ 53" | "?K = 2 ^ 53" | "?K = - (2 ^ 53)" by linarith
  then show ?thesis
  proof cases
    case 1
    then show ?thesis unfolding d by (rule toDouble_dyadic)
  next
    case 2
    have "toDouble x = of_int 1 * 2 powi (?e + 1)"
      unfolding d 2 using pow2_add[of 53 "?e - 52"] by (simp add: add.commute)
    then show ?thesis using toDouble_dyadic[of 1 "?e + 1"] by simp
  next
    case 3
    have "toDouble x = of_int (- 1) * 2 powi (?e + 1)"
      unfolding d 3 using pow2_add[of 53 "?e - 52"] by (simp add: add.commute)
    then show ?thesis using toDouble_dyadic[of "- 1" "?e + 1"] by simp
  qed
qed

text \<open>Rounding is symmetric about 0.\<close>

lemma roundHalfEven_minus: "roundHalfEven (- r) = - roundHalfEven r"
proof (cases "r = of_int \<lfloor>r\<rfloor>")
  case True
  then obtain k where "r = of_int k" by blast
  then show ?thesis using roundHalfEven_int[of "- k"] by simp
next
  case False
  then have f: "\<lfloor>- r\<rfloor> = - \<lfloor>r\<rfloor> - 1" by linarith
  show ?thesis unfolding roundHalfEven_def Let_def f by auto
qed

lemma toDouble_minus [simp]: "toDouble (- x) = - toDouble x"
  by (simp add: toDouble_def binaryExponent_def Let_def roundHalfEven_minus)

text \<open>A number halfway between two doubles goes to the one with the even significand.\<close>

lemma roundHalfEven_tie: "roundHalfEven (of_int f + 1 / 2) = (if even f then f else f + 1)"
proof -
  have "\<lfloor>of_int f + (1 / 2 :: real)\<rfloor> = f" by linarith
  then show ?thesis by (simp add: roundHalfEven_def Let_def)
qed

lemma toDouble_tie:
  assumes "2 powi e \<le> \<bar>x\<bar>" "\<bar>x\<bar> < 2 powi (e + 1)" "x * 2 powi (52 - e) = of_int f + 1 / 2"
  shows "toDouble x = of_int (if even f then f else f + 1) * 2 powi (e - 52)"
proof -
  have "0 < \<bar>x\<bar>" using assms(1) pow2_pos[of e] by linarith
  then have x0: "x \<noteq> 0" by simp
  show ?thesis
    using x0 binaryExponent_unique[OF assms(1,2)] roundHalfEven_tie[of f]
    by (simp add: toDouble_def Let_def assms(3))
qed

text \<open>
  The double nearest to a square root, from the squares of the midpoints to its two
  neighbours.
\<close>

lemma toDouble_sqrt_eval:
  assumes "0 < k" "(2 powi e)\<^sup>2 \<le> q" "q < (2 powi (e + 1))\<^sup>2"
    and "((of_int k - 1 / 2) / 2 powi (52 - e))\<^sup>2 < q"
    and "q < ((of_int k + 1 / 2) / 2 powi (52 - e))\<^sup>2"
  shows "toDouble (sqrt q) = of_int k * 2 powi (e - 52)"
proof -
  have q0: "0 \<le> q" using assms(2) zero_le_power2[of "(2::real) powi e"] by linarith
  have a: "2 powi e \<le> sqrt q" using assms(2) by (rule real_le_rsqrt)
  have b: "sqrt q < 2 powi (e + 1)" using assms(3) by (intro real_less_lsqrt) simp_all
  have k1: "0 \<le> (of_int k - 1 / 2 :: real) / 2 powi (52 - e)"
    using assms(1) by (intro divide_nonneg_pos) (simp_all, linarith?)
  have c: "(of_int k - 1 / 2) / 2 powi (52 - e) < sqrt q" using assms(4) by (rule real_less_rsqrt)
  have d: "sqrt q < (of_int k + 1 / 2) / 2 powi (52 - e)"
    using assms(1,5) by (intro real_less_lsqrt divide_nonneg_pos) simp_all
  have "of_int k - 1 / 2 < sqrt q * 2 powi (52 - e)" using c by (simp add: pos_divide_less_eq)
  moreover have "sqrt q * 2 powi (52 - e) < of_int k + 1 / 2" using d by (simp add: pos_less_divide_eq)
  ultimately have "\<bar>sqrt q * 2 powi (52 - e) - of_int k\<bar> < 1 / 2" by linarith
  moreover have "\<bar>sqrt q\<bar> = sqrt q" using q0 by simp
  ultimately show ?thesis using a b by (intro toDouble_eval) simp_all
qed

lemma toDouble_numeral: "numeral n < (2::int) ^ 53 \<Longrightarrow> toDouble (numeral n) = numeral n"
  using toDouble_of_int[of "numeral n"] by simp

lemma toDouble_one [simp]: "toDouble 1 = 1"
  using toDouble_of_int[of 1] by simp

text \<open>The operations on operands that cancel or vanish.\<close>

lemma dsub_self [simp]: "dsub a a = 0"
  by (simp add: dsub_def)

lemma dmul_zero [simp]: "dmul 0 a = 0" "dmul a 0 = 0"
  by (simp_all add: dmul_def)

lemma dadd_zero [simp]: "dadd 0 a = toDouble a" "dadd a 0 = toDouble a"
  by (simp_all add: dadd_def)

lemma dsub_zero [simp]: "dsub a 0 = toDouble a"
  by (simp add: dsub_def)

lemma dsqrt_zero [simp]: "dsqrt 0 = 0"
  by (simp add: dsqrt_def)

lemma double_results [simp]:
  "toDouble (dadd a b) = dadd a b" "toDouble (dsub a b) = dsub a b"
  "toDouble (dmul a b) = dmul a b" "toDouble (ddiv a b) = ddiv a b"
  "toDouble (dsqrt a) = dsqrt a"
  by (simp_all add: dadd_def dsub_def dmul_def ddiv_def dsqrt_def)


text \<open>
  The square root in integers: \<open>intSqrt n\<close> is the integer part of the square root, and
  \<open>sqrtDouble\<close> is the rounded square root of a positive double, which makes \<open>dsqrt\<close>
  (and with it \<open>distance2D\<close> and the G-code transform) executable.
\<close>

declare intSqrt.simps [simp del]

lemma intSqrt_bounds:
  "0 \<le> n \<Longrightarrow> 0 \<le> intSqrt n \<and> intSqrt n * intSqrt n \<le> n \<and> n < (intSqrt n + 1) * (intSqrt n + 1)"
proof (induction n rule: intSqrt.induct)
  case (1 n)
  show ?case
  proof (cases "n \<le> 0")
    case True
    then have "n = 0" using 1(2) by simp
    then show ?thesis by (simp add: intSqrt.simps)
  next
    case False
    define s where "s = intSqrt (n div 4)"
    have d0: "0 \<le> n div 4" using 1(2) by simp
    have ih: "0 \<le> s" "s * s \<le> n div 4" "n div 4 < (s + 1) * (s + 1)"
      using 1(1)[OF False d0] unfolding s_def by auto
    have a: "(2 * s) * (2 * s) \<le> n"
    proof -
      have "4 * (s * s) \<le> 4 * (n div 4)" using ih(2) by simp
      also have "\<dots> \<le> n" by simp
      finally show ?thesis by (simp add: algebra_simps)
    qed
    have b: "n < (2 * s + 2) * (2 * s + 2)"
    proof -
      have "n div 4 + 1 \<le> (s + 1) * (s + 1)" using ih(3) by simp
      then have "4 * (n div 4 + 1) \<le> 4 * ((s + 1) * (s + 1))" by simp
      moreover have "n < 4 * (n div 4 + 1)" by simp
      ultimately have "n < 4 * ((s + 1) * (s + 1))" by linarith
      then show ?thesis by (simp add: algebra_simps)
    qed
    have e: "intSqrt n = (if (2 * s + 1) * (2 * s + 1) \<le> n then 2 * s + 1 else 2 * s)"
      using False by (subst intSqrt.simps) (simp add: s_def Let_def)
    show ?thesis
    proof (cases "(2 * s + 1) * (2 * s + 1) \<le> n")
      case True
      then show ?thesis using b ih(1) unfolding e by (simp add: algebra_simps)
    next
      case False
      then show ?thesis using a ih(1) unfolding e by (simp add: algebra_simps)
    qed
  qed
qed

lemma sqrtDouble_correct:
  assumes q0: "0 < q" and dq: "toDouble q = q"
  shows "toDouble (sqrt q) = sqrtDouble q"
proof -
  define e2 where "e2 = binaryExponent q"
  define e where "e = e2 div 2"
  define K where "K = roundHalfEven (q * 2 powi (52 - e2))"
  have qn: "q \<noteq> 0" using q0 by simp
  have qK: "q = of_int K * 2 powi (e2 - 52)"
    using dq qn by (simp add: toDouble_def Let_def e2_def K_def)
  have ee: "2 * e \<le> e2" "e2 \<le> 2 * e + 1" unfolding e_def by linarith+
  have bq: "2 powi e2 \<le> q" "q < 2 powi (e2 + 1)"
    using binaryExponent_bounds[OF qn] q0 unfolding e2_def by simp_all
  define n where "n = K * 2 ^ nat (52 + e2 - 2 * e)"
  define N where "N = q * 2 powi (104 - 2 * e)"
  have Nn: "N = of_int n"
  proof -
    have "N = of_int K * (2 powi (e2 - 52) * 2 powi (104 - 2 * e))" unfolding N_def by (subst qK) simp
    also have "2 powi (e2 - 52) * 2 powi (104 - 2 * e) = (2::real) powi (52 + e2 - 2 * e)"
    proof -
      have "e2 - 52 + (104 - 2 * e) = 52 + e2 - 2 * e" by simp
      then show ?thesis by (simp only: pow2_add[symmetric])
    qed
    also have "\<dots> = of_int (2 ^ nat (52 + e2 - 2 * e))" using ee by (intro pow2_nat) simp
    finally show ?thesis unfolding n_def by simp
  qed
  have Npos: "0 < N" unfolding N_def using q0 by simp
  then have npos: "0 < n" unfolding Nn by simp
  have nfl: "\<lfloor>q * 2 powi (104 - 2 * e)\<rfloor> = n" using Nn unfolding N_def by simp
  define r where "r = intSqrt n"
  have rb: "0 \<le> r" "r * r \<le> n" "n < (r + 1) * (r + 1)"
    using intSqrt_bounds[of n] npos unfolding r_def by auto
  have r1: "1 \<le> r"
  proof (rule ccontr)
    assume "\<not> 1 \<le> r"
    then have "r = 0" using rb(1) by simp
    then show False using rb(3) npos by simp
  qed
  define k where "k = (if n - r * r \<le> r then r else r + 1)"
  have sd: "sqrtDouble q = of_int k * 2 powi (e - 52)"
    unfolding sqrtDouble_def Let_def e_def[symmetric] e2_def[symmetric] nfl r_def[symmetric] k_def
    by simp
  have kb: "(of_int k - 1 / 2)\<^sup>2 < N \<and> N < (of_int k + 1 / 2)\<^sup>2"
  proof (cases "n - r * r \<le> r")
    case True
    then have k: "k = r" unfolding k_def by simp
    have "n \<le> r * r + r" using True by simp
    then have "real_of_int n \<le> of_int (r * r + r)" by (simp only: of_int_le_iff)
    then have u: "real_of_int n \<le> of_int r * of_int r + of_int r" by simp
    have "real_of_int (r * r) \<le> of_int n" using rb(2) by (simp only: of_int_le_iff)
    then have l: "real_of_int r * of_int r \<le> of_int n" by simp
    have "1 \<le> real_of_int r" using r1 by simp
    then show ?thesis unfolding k Nn using u l by (simp add: power2_eq_square algebra_simps)
  next
    case False
    then have k: "k = r + 1" unfolding k_def by simp
    have "r * r + r + 1 \<le> n" using False by simp
    then have "real_of_int (r * r + r + 1) \<le> of_int n" by (simp only: of_int_le_iff)
    then have l: "real_of_int r * of_int r + of_int r + 1 \<le> of_int n" by simp
    have "real_of_int n < of_int ((r + 1) * (r + 1))" using rb(3) by (simp only: of_int_less_iff)
    then have u: "real_of_int n < (of_int r + 1) * (of_int r + 1)" by (simp add: algebra_simps)
    show ?thesis unfolding k Nn using u l by (simp add: power2_eq_square algebra_simps)
  qed
  have kpos: "0 < k" using r1 unfolding k_def by simp
  have sq: "(2 powi (52 - e))\<^sup>2 = (2::real) powi (104 - 2 * e)"
  proof -
    have "52 - e + (52 - e) = 104 - 2 * e" by simp
    then show ?thesis by (simp only: power2_eq_square pow2_add[symmetric])
  qed
  have qN: "q = N / (2 powi (52 - e))\<^sup>2" unfolding sq N_def by simp
  have lo: "((of_int k - 1 / 2) / 2 powi (52 - e))\<^sup>2 < q"
    unfolding qN power_divide using kb by (simp add: divide_strict_right_mono)
  have hi: "q < ((of_int k + 1 / 2) / 2 powi (52 - e))\<^sup>2"
    unfolding qN power_divide using kb by (simp add: divide_strict_right_mono)
  have a: "(2 powi e)\<^sup>2 \<le> q"
  proof -
    have "e + e = 2 * e" by simp
    then have "(2 powi e)\<^sup>2 = (2::real) powi (2 * e)"
      by (simp only: power2_eq_square pow2_add[symmetric])
    also have "\<dots> \<le> 2 powi e2" using ee by (intro pow2_mono)
    finally show ?thesis using bq by linarith
  qed
  have b: "q < (2 powi (e + 1))\<^sup>2"
  proof -
    have "(2::real) powi (e2 + 1) \<le> 2 powi (2 * e + 2)" using ee by (intro pow2_mono) simp
    also have "\<dots> = (2 powi (e + 1))\<^sup>2"
    proof -
      have "e + 1 + (e + 1) = 2 * e + 2" by simp
      then show ?thesis by (simp only: power2_eq_square pow2_add[symmetric])
    qed
    finally show ?thesis using bq by linarith
  qed
  show ?thesis unfolding sd using kpos a b lo hi by (rule toDouble_sqrt_eval)
qed

lemma dsqrt_code [code]:
  "dsqrt a = (let q = toDouble a in
     if q = 0 then 0 else if 0 < q then sqrtDouble q else - sqrtDouble (- q))"
proof -
  define q where "q = toDouble a"
  have dq: "toDouble q = q" unfolding q_def by simp
  consider "q = 0" | "0 < q" | "q < 0" by linarith
  then have "toDouble (sqrt q) = (if q = 0 then 0 else if 0 < q then sqrtDouble q else - sqrtDouble (- q))"
  proof cases
    case 1
    then show ?thesis by simp
  next
    case 2
    then show ?thesis using sqrtDouble_correct[OF 2 dq] by simp
  next
    case 3
    then have p: "0 < - q" by simp
    have "toDouble (- q) = - q" using dq by simp
    from sqrtDouble_correct[OF p this] have "toDouble (sqrt (- q)) = sqrtDouble (- q)" .
    then have "toDouble (sqrt q) = - sqrtDouble (- q)" by (simp add: real_sqrt_minus)
    then show ?thesis using 3 by simp
  qed
  then show ?thesis unfolding dsqrt_def q_def[symmetric] Let_def .
qed

section \<open>Properties of the interpolation\<close>

lemma uniqueSorted_strict: "sorted_wrt (<) (uniqueSorted vs)"
  unfolding uniqueSorted_def by (simp add: strict_sorted_iff)

lemma set_uniqueSorted: "set (uniqueSorted vs) = set vs"
  unfolding uniqueSorted_def by simp

lemma findIndexLoop_bound:
  "2 \<le> length u \<Longrightarrow> idx + 2 \<le> length u \<Longrightarrow> findIndexLoop c u i idx + 2 \<le> length u"
proof (induction c u i idx rule: findIndexLoop.induct)
  case (1 c u i idx)
  show ?case
  proof (cases "i + 1 < length u")
    case True
    then show ?thesis using 1 by (subst findIndexLoop.simps) auto
  next
    case False
    then show ?thesis using 1 by (subst findIndexLoop.simps) auto
  qed
qed

text \<open>
  When some interval from \<open>i\<close> on holds \<open>c\<close>, the search returns the first of them.
\<close>

lemma findIndexLoop_hit:
  "i \<le> k \<Longrightarrow> k + 1 < length u \<Longrightarrow> u ! k \<le> c \<Longrightarrow> c \<le> u ! (k + 1) \<Longrightarrow>
   (let r = findIndexLoop c u i idx in i \<le> r \<and> r \<le> k \<and> u ! r \<le> c \<and> c \<le> u ! (r + 1))"
proof (induction c u i idx rule: findIndexLoop.induct)
  case (1 c u i idx)
  show ?case
  proof (cases "c \<ge> u ! i \<and> c \<le> u ! (i + 1)")
    case True
    then show ?thesis using 1(2,3) by (subst findIndexLoop.simps) (auto simp: Let_def)
  next
    case False
    then have "i \<noteq> k" using 1 by auto
    then have ik: "i + 1 \<le> k" using 1(2) by simp
    have lt: "i + 1 < length u" using 1(2,3) by simp
    have IH: "let r = findIndexLoop c u (i + 1) (if i + 2 = length u then i else idx)
              in i + 1 \<le> r \<and> r \<le> k \<and> u ! r \<le> c \<and> c \<le> u ! (r + 1)"
      using 1(1)[OF lt False ik "1.prems"(2) "1.prems"(3) "1.prems"(4)] .
    show ?thesis using False lt IH by (subst findIndexLoop.simps) (auto simp: Let_def)
  qed
qed

lemma findPoint_SomeD: "findPoint ps a b = Some p \<Longrightarrow> px p = a \<and> py p = b \<and> p \<in> set ps"
  unfolding findPoint_def by (auto simp: find_Some_iff)

lemma fsp_SomeD:
  assumes "findSurroundingPoints x y m = Some s"
  defines "u \<equiv> uniqueSorted (map px (points m))" and "v \<equiv> uniqueSorted (map py (points m))"
  defines "i \<equiv> findIndexLoop (clampX m x) u 0 0" and "j \<equiv> findIndexLoop (clampY m y) v 0 0"
  shows "i + 1 < length u \<and> j + 1 < length v \<and>
         findPoint (points m) (u ! i) (v ! j) = Some (p00 s) \<and>
         findPoint (points m) (u ! (i + 1)) (v ! j) = Some (p10 s) \<and>
         findPoint (points m) (u ! i) (v ! (j + 1)) = Some (p01 s) \<and>
         findPoint (points m) (u ! (i + 1)) (v ! (j + 1)) = Some (p11 s)"
proof -
  have len: "2 \<le> length u" "2 \<le> length v"
    using assms(1) unfolding findSurroundingPoints_def u_def v_def
    by (auto simp: Let_def split: if_splits)
  have i: "i + 2 \<le> length u" unfolding i_def using findIndexLoop_bound[of u 0] len by simp
  have j: "j + 2 \<le> length v" unfolding j_def using findIndexLoop_bound[of v 0] len by simp
  have i1: "i + 1 < length u" and j1: "j + 1 < length v" using i j by simp_all
  show ?thesis
    using assms(1) len i1 j1 unfolding findSurroundingPoints_def
    by (auto simp: Let_def u_def[symmetric] v_def[symmetric] i_def[symmetric] j_def[symmetric]
             split: if_splits option.splits)
qed

lemma strict_nth_less: "sorted_wrt (<) (u :: real list) \<Longrightarrow> i < j \<Longrightarrow> j < length u \<Longrightarrow> u ! i < u ! j"
  by (simp add: sorted_wrt_nth_less)

lemma fsp_ranges:
  assumes "findSurroundingPoints x y m = Some s"
  shows "px (p00 s) < px (p10 s) \<and> py (p00 s) < py (p01 s) \<and>
         px (p01 s) = px (p00 s) \<and> px (p11 s) = px (p10 s) \<and>
         py (p10 s) = py (p00 s) \<and> py (p11 s) = py (p01 s)"
proof -
  let ?u = "uniqueSorted (map px (points m))" and ?v = "uniqueSorted (map py (points m))"
  let ?i = "findIndexLoop (clampX m x) ?u 0 0" and ?j = "findIndexLoop (clampY m y) ?v 0 0"
  note D = fsp_SomeD[OF assms]
  have "?u ! ?i < ?u ! (?i + 1)" using D by (intro strict_nth_less uniqueSorted_strict) auto
  moreover have "?v ! ?j < ?v ! (?j + 1)" using D by (intro strict_nth_less uniqueSorted_strict) auto
  ultimately show ?thesis using D by (auto dest!: findPoint_SomeD)
qed

lemma clampX_idem: "clampX m (clampX m x) = clampX m x"
  unfolding clampX_def by auto

lemma clampY_idem: "clampY m (clampY m y) = clampY m y"
  unfolding clampY_def by auto

lemma fsp_clamped: "findSurroundingPoints (clampX m x) (clampY m y) m = findSurroundingPoints x y m"
  by (simp add: findSurroundingPoints_def clampX_idem clampY_idem Let_def)

lemma fsp_clampedX: "findSurroundingPoints (clampX m x) y m = findSurroundingPoints x y m"
  by (simp add: findSurroundingPoints_def clampX_idem Let_def)

lemma fsp_clampedY: "findSurroundingPoints x (clampY m y) m = findSurroundingPoints x y m"
  by (simp add: findSurroundingPoints_def clampY_idem Let_def)

lemma bilinearInterpolate_Some:
  assumes "findSurroundingPoints x y m = Some s"
  shows "bilinearInterpolate x y m =
         Some (bilinear s ((x - px (p00 s)) / (px (p10 s) - px (p00 s)))
                          ((y - py (p00 s)) / (py (p01 s) - py (p00 s))))"
  using fsp_ranges[OF assms] assms unfolding bilinearInterpolate_def by (simp add: Let_def)

lemma bilinear_affine_x:
  "bilinear s t yw = bilinear s t' yw +
     (t - t') * ((pz (p10 s) - pz (p00 s)) * (1 - yw) + (pz (p11 s) - pz (p01 s)) * yw)"
  unfolding bilinear_def by (simp add: algebra_simps)

lemma bilinear_affine_y:
  "bilinear s xw t = bilinear s xw t' +
     (t - t') * ((pz (p01 s) - pz (p00 s)) * (1 - xw) + (pz (p11 s) - pz (p10 s)) * xw)"
  unfolding bilinear_def by (simp add: algebra_simps)

lemma weight_diff: "(a - c) / d - (b - c) / d = (a - b) / (d::real)"
  by (simp add: diff_divide_distrib)

lemma bilinear_gradX:
  "bilinear s ((x - x0) / (x1 - x0)) yw =
   bilinear s ((x' - x0) / (x1 - x0)) yw +
   (x - x') * (((pz (p10 s) - pz (p00 s)) * (1 - yw) + (pz (p11 s) - pz (p01 s)) * yw) / (x1 - x0))"
  by (subst bilinear_affine_x[where t' = "(x' - x0) / (x1 - x0)"]) (simp add: weight_diff)

lemma bilinear_gradY:
  "bilinear s xw ((y - y0) / (y1 - y0)) =
   bilinear s xw ((y' - y0) / (y1 - y0)) +
   (y - y') * (((pz (p01 s) - pz (p00 s)) * (1 - xw) + (pz (p11 s) - pz (p10 s)) * xw) / (y1 - y0))"
  by (subst bilinear_affine_y[where t' = "(y' - y0) / (y1 - y0)"]) (simp add: weight_diff)

text \<open>
  The weights come from the unclamped query. Take a height map and a query \<open>(x, y)\<close>
  outside \<open>bounds\<close> for which \<open>findSurroundingPoints\<close> returns a cell \<open>s\<close>. The cell is the
  one selected for the clamped coordinates, since the search reads nothing else of the
  query. Both ranges of the cell are positive, and \<open>bilinearInterpolate\<close> returns the
  weighted sum with the weights of the unclamped \<open>x\<close> and \<open>y\<close>: the value at the clamped
  coordinate plus the distance to it times the slope of the selected cell, along x and
  along y.
\<close>

lemma extrapolation_in_selected_cell:
  assumes cell: "findSurroundingPoints x y m = Some s"
    and out: "\<not> isWithinBounds x y m"
  shows "findSurroundingPoints (clampX m x) (clampY m y) m = Some s \<and>
         px (p00 s) < px (p10 s) \<and> py (p00 s) < py (p01 s) \<and>
         bilinearInterpolate x y m =
           Some (bilinear s ((x - px (p00 s)) / (px (p10 s) - px (p00 s)))
                            ((y - py (p00 s)) / (py (p01 s) - py (p00 s)))) \<and>
         bilinearInterpolate (clampX m x) y m =
           Some (bilinear s ((clampX m x - px (p00 s)) / (px (p10 s) - px (p00 s)))
                            ((y - py (p00 s)) / (py (p01 s) - py (p00 s)))) \<and>
         bilinearInterpolate x (clampY m y) m =
           Some (bilinear s ((x - px (p00 s)) / (px (p10 s) - px (p00 s)))
                            ((clampY m y - py (p00 s)) / (py (p01 s) - py (p00 s)))) \<and>
         the (bilinearInterpolate x y m) =
           the (bilinearInterpolate (clampX m x) y m) + (x - clampX m x) * gradientX s y \<and>
         the (bilinearInterpolate x y m) =
           the (bilinearInterpolate x (clampY m y) m) + (y - clampY m y) * gradientY s x \<and>
         ((bilinearInterpolate x y m = bilinearInterpolate (clampX m x) y m) =
            (x = clampX m x \<or> gradientX s y = 0)) \<and>
         ((bilinearInterpolate x y m = bilinearInterpolate x (clampY m y) m) =
            (y = clampY m y \<or> gradientY s x = 0))"
proof -
  note r = fsp_ranges[OF cell]
  have c0: "findSurroundingPoints (clampX m x) (clampY m y) m = Some s"
    using cell by (simp add: fsp_clamped)
  have cx: "findSurroundingPoints (clampX m x) y m = Some s"
    using cell by (simp add: fsp_clampedX)
  have cy: "findSurroundingPoints x (clampY m y) m = Some s"
    using cell by (simp add: fsp_clampedY)
  note b = bilinearInterpolate_Some[OF cell]
  note bx = bilinearInterpolate_Some[OF cx]
  note by' = bilinearInterpolate_Some[OF cy]
  have gx: "the (bilinearInterpolate x y m) =
           the (bilinearInterpolate (clampX m x) y m) + (x - clampX m x) * gradientX s y"
    unfolding b bx gradientX_def Let_def option.sel
    by (rule bilinear_gradX)
  have gy: "the (bilinearInterpolate x y m) =
           the (bilinearInterpolate x (clampY m y) m) + (y - clampY m y) * gradientY s x"
    unfolding b by' gradientY_def Let_def option.sel
    by (rule bilinear_gradY)
  have ex: "(bilinearInterpolate x y m = bilinearInterpolate (clampX m x) y m) =
            (x = clampX m x \<or> gradientX s y = 0)"
    using gx unfolding b bx by auto
  have ey: "(bilinearInterpolate x y m = bilinearInterpolate x (clampY m y) m) =
            (y = clampY m y \<or> gradientY s x = 0)"
    using gy unfolding b by' by auto
  show ?thesis using c0 r b bx by' gx gy ex ey by blast
qed

text \<open>
  Which cell is selected. When the clamped coordinate lies within the span of the stored
  coordinates, the search takes the first interval that holds it.
\<close>

lemma span_has_interval:
  assumes s: "sorted_wrt (<) (u :: real list)" and len: "2 \<le> length u"
    and lo: "u ! 0 \<le> c" and hi: "c \<le> last u"
  shows "\<exists>k. k + 1 < length u \<and> u ! k \<le> c \<and> c \<le> u ! (k + 1)"
proof -
  define j where "j = (LEAST j. j < length u \<and> c \<le> u ! j)"
  have ne: "u \<noteq> []" using len by auto
  have ex: "length u - 1 < length u \<and> c \<le> u ! (length u - 1)"
    using hi len last_conv_nth[OF ne] by simp
  have j: "j < length u \<and> c \<le> u ! j" unfolding j_def by (rule LeastI[of _ "length u - 1"]) (rule ex)
  have least: "\<And>i. i < length u \<and> c \<le> u ! i \<Longrightarrow> j \<le> i" unfolding j_def by (rule Least_le)
  show ?thesis
  proof (cases "j = 0")
    case True
    then have "c = u ! 0" using j lo by simp
    moreover have "u ! 0 < u ! 1" using s len by (intro strict_nth_less) auto
    ultimately show ?thesis using len by (intro exI[of _ 0]) auto
  next
    case False
    then have jp: "j - 1 + 1 = j" by simp
    have "\<not> c \<le> u ! (j - 1)"
    proof
      assume "c \<le> u ! (j - 1)"
      then have "j \<le> j - 1" using j by (intro least) auto
      then show False using False by simp
    qed
    then show ?thesis using j jp by (intro exI[of _ "j - 1"]) auto
  qed
qed

lemma cell_holds_clamped:
  assumes cell: "findSurroundingPoints x y m = Some s"
    and spanX: "hd (uniqueSorted (map px (points m))) \<le> clampX m x"
               "clampX m x \<le> last (uniqueSorted (map px (points m)))"
    and spanY: "hd (uniqueSorted (map py (points m))) \<le> clampY m y"
               "clampY m y \<le> last (uniqueSorted (map py (points m)))"
  shows "px (p00 s) \<le> clampX m x \<and> clampX m x \<le> px (p10 s) \<and>
         py (p00 s) \<le> clampY m y \<and> clampY m y \<le> py (p01 s)"
proof -
  let ?u = "uniqueSorted (map px (points m))" and ?v = "uniqueSorted (map py (points m))"
  let ?i = "findIndexLoop (clampX m x) ?u 0 0" and ?j = "findIndexLoop (clampY m y) ?v 0 0"
  note D = fsp_SomeD[OF cell]
  have lu: "2 \<le> length ?u" and lv: "2 \<le> length ?v" using D by auto
  have hu: "?u ! 0 \<le> clampX m x" using spanX(1) lu by (cases ?u) auto
  have hv: "?v ! 0 \<le> clampY m y" using spanY(1) lv by (cases ?v) auto
  from span_has_interval[OF uniqueSorted_strict lu hu spanX(2)] obtain k where
    k: "k + 1 < length ?u" "?u ! k \<le> clampX m x" "clampX m x \<le> ?u ! (k + 1)" by blast
  from span_has_interval[OF uniqueSorted_strict lv hv spanY(2)] obtain l where
    l: "l + 1 < length ?v" "?v ! l \<le> clampY m y" "clampY m y \<le> ?v ! (l + 1)" by blast
  have a: "?u ! ?i \<le> clampX m x \<and> clampX m x \<le> ?u ! (?i + 1)"
    using findIndexLoop_hit[of 0 k ?u "clampX m x" 0] k by (simp add: Let_def)
  have b: "?v ! ?j \<le> clampY m y \<and> clampY m y \<le> ?v ! (?j + 1)"
    using findIndexLoop_hit[of 0 l ?v "clampY m y" 0] l by (simp add: Let_def)
  show ?thesis using a b D by (auto dest!: findPoint_SomeD)
qed

lemma wideMap_cells:
  "findSurroundingPoints (- 6) 0 wideMap = Some wideHighCell"
  "findSurroundingPoints (1 / 2) 0 wideMap = Some wideLowCell"
  "findSurroundingPoints 8 0 wideMap = Some wideHighCell"
  by (simp_all add: findSurroundingPoints_def wideMap_def wideLowCell_def wideHighCell_def
        uniqueSorted_def clampX_def clampY_def findPoint_def findIndexLoop.simps Let_def)

text \<open>
  Claim C1 fails on the code. On \<open>wideMap\<close> the query \<open>(-6, 0)\<close> is outside the bounds, one
  unit below \<open>minX = -5\<close>. The clamped x, -5, is below the first stored x, so no interval of
  the search holds it and the loop leaves the index of the last interval: the selected
  cell is the one from \<open>x = 1\<close> to \<open>x = 2\<close>, the cell farthest from the query, and the
  result is \<open>-70\<close>, the extension of its slope 10. The nearest edge cell is the one from
  \<open>x = 0\<close> to \<open>x = 1\<close>, which a query inside it selects; its slope is 0 and its extension
  to \<open>x = -6\<close> is 0. Above the bounds, at \<open>(8, 0)\<close>, the same loop does select the nearest
  cell, and the result 70 is the extension of its slope.
\<close>

theorem extrapolation_takes_far_cell:
  "\<not> isWithinBounds (- 6) 0 wideMap \<and>
   clampX wideMap (- 6) = - 5 \<and>
   findSurroundingPoints (- 6) 0 wideMap = Some wideHighCell \<and>
   bilinearInterpolate (- 6) 0 wideMap = Some (- 70) \<and>
   getZOffset (- 6) 0 (Some wideMap) = - 70 \<and>
   findSurroundingPoints (1 / 2) 0 wideMap = Some wideLowCell \<and>
   bilinearInterpolate (1 / 2) 0 wideMap = Some 0 \<and>
   bilinear wideLowCell ((- 6 - px (p00 wideLowCell)) / (px (p10 wideLowCell) - px (p00 wideLowCell)))
     ((0 - py (p00 wideLowCell)) / (py (p01 wideLowCell) - py (p00 wideLowCell))) = 0 \<and>
   gradientX wideLowCell 0 = 0 \<and> gradientX wideHighCell 0 = 10 \<and>
   \<not> isWithinBounds 8 0 wideMap \<and>
   findSurroundingPoints 8 0 wideMap = Some wideHighCell \<and>
   bilinearInterpolate 8 0 wideMap = Some 70"
proof -
  have a: "bilinearInterpolate (- 6) 0 wideMap = Some (- 70)"
    by (simp add: bilinearInterpolate_def wideMap_cells wideHighCell_def bilinear_def Let_def)
  have b: "bilinearInterpolate (1 / 2) 0 wideMap = Some 0"
    by (simp add: bilinearInterpolate_def wideMap_cells wideLowCell_def bilinear_def Let_def)
  have c: "bilinearInterpolate 8 0 wideMap = Some 70"
    by (simp add: bilinearInterpolate_def wideMap_cells wideHighCell_def bilinear_def Let_def)
  have ne: "points wideMap \<noteq> []" by (simp add: wideMap_def)
  have z: "getZOffset (- 6) 0 (Some wideMap) = - 70"
    by (simp add: getZOffset_def a ne)
  have o: "\<not> isWithinBounds (- 6) 0 wideMap" "\<not> isWithinBounds 8 0 wideMap"
          "clampX wideMap (- 6) = - 5"
    by (simp_all add: isWithinBounds_def clampX_def wideMap_def)
  have g: "gradientX wideLowCell 0 = 0" "gradientX wideHighCell 0 = 10"
    "bilinear wideLowCell ((- 6 - px (p00 wideLowCell)) / (px (p10 wideLowCell) - px (p00 wideLowCell)))
       ((0 - py (p00 wideLowCell)) / (py (p01 wideLowCell) - py (p00 wideLowCell))) = 0"
    by (simp_all add: gradientX_def wideLowCell_def wideHighCell_def bilinear_def Let_def)
  show ?thesis using a b c z o g wideMap_cells by simp
qed

lemma strict_sorted_between:
  assumes s: "sorted_wrt (<) (u :: real list)" and c: "c \<in> set u"
    and r: "r + 1 < length u" and lo: "u ! r \<le> c" and hi: "c \<le> u ! (r + 1)"
  shows "c = u ! r \<or> c = u ! (r + 1)"
proof -
  from c obtain j where j: "j < length u" "u ! j = c" by (auto simp: in_set_conv_nth)
  have "\<not> j < r"
  proof
    assume "j < r"
    then have "u ! j < u ! r" using s r by (intro strict_nth_less) auto
    then show False using lo j by simp
  qed
  moreover have "\<not> r + 1 < j"
  proof
    assume "r + 1 < j"
    then have "u ! (r + 1) < u ! j" using s j by (intro strict_nth_less) auto
    then show False using hi j by simp
  qed
  ultimately have "j = r \<or> j = r + 1" by arith
  then show ?thesis using j by auto
qed

lemma member_has_interval:
  assumes s: "sorted_wrt (<) (u :: real list)" and c: "c \<in> set u" and len: "2 \<le> length u"
  shows "\<exists>k. k + 1 < length u \<and> u ! k \<le> c \<and> c \<le> u ! (k + 1)"
proof -
  from c obtain j where j: "j < length u" "u ! j = c" by (auto simp: in_set_conv_nth)
  show ?thesis
  proof (cases "j + 1 < length u")
    case True
    then have "u ! j < u ! (j + 1)" using s by (intro strict_nth_less) auto
    then show ?thesis using True j by (intro exI[of _ j]) auto
  next
    case False
    then have jp: "j = (j - 1) + 1" "j - 1 < j" using j len by auto
    then have "u ! (j - 1) < u ! j" using s j by (intro strict_nth_less) auto
    then show ?thesis using jp j by (intro exI[of _ "j - 1"]) auto
  qed
qed

lemma cell_index_at_member:
  assumes s: "sorted_wrt (<) (u :: real list)" and c: "c \<in> set u" and len: "2 \<le> length u"
  defines "r \<equiv> findIndexLoop c u 0 0"
  shows "r + 1 < length u \<and> (c = u ! r \<or> c = u ! (r + 1))"
proof -
  from member_has_interval[OF s c len] obtain k where
    k: "k + 1 < length u" "u ! k \<le> c" "c \<le> u ! (k + 1)" by blast
  have h: "r \<le> k \<and> u ! r \<le> c \<and> c \<le> u ! (r + 1)"
    using findIndexLoop_hit[of 0 k u c 0] k unfolding r_def by (simp add: Let_def)
  then have r1: "r + 1 < length u" using k by simp
  show ?thesis using strict_sorted_between[OF s c r1] h r1 by simp
qed

lemma bilinear_corners:
  "bilinear s 0 0 = pz (p00 s)" "bilinear s 1 0 = pz (p10 s)"
  "bilinear s 0 1 = pz (p01 s)" "bilinear s 1 1 = pz (p11 s)"
  by (simp_all add: bilinear_def)

lemma weight_cases:
  assumes "a < (b::real)" "c = a \<or> c = b"
  shows "(c = a \<and> (c - a) / (b - a) = 0) \<or> (c = b \<and> (c - a) / (b - a) = 1)"
  using assms by auto

text \<open>
  Claim C8, as amended. Let \<open>p\<close> be the first stored sample at its coordinate, inside
  \<open>bounds\<close>, in a height map where \<open>findSurroundingPoints\<close> finds the four corners of the
  cell selected for that coordinate. Then \<open>bilinearInterpolate\<close> at the coordinate of \<open>p\<close>
  returns the height of \<open>p\<close>, exactly.
\<close>

theorem interpolate_exact_at_sample:
  assumes first: "findPoint (points m) (px p) (py p) = Some p"
    and inside: "isWithinBounds (px p) (py p) m"
    and cell: "findSurroundingPoints (px p) (py p) m \<noteq> None"
  shows "bilinearInterpolate (px p) (py p) m = Some (pz p)"
proof -
  from cell obtain s where s: "findSurroundingPoints (px p) (py p) m = Some s" by auto
  let ?u = "uniqueSorted (map px (points m))" and ?v = "uniqueSorted (map py (points m))"
  have cx: "clampX m (px p) = px p" and cy: "clampY m (py p) = py p"
    using inside by (auto simp: clampX_def clampY_def isWithinBounds_def)
  let ?i = "findIndexLoop (px p) ?u 0 0" and ?j = "findIndexLoop (py p) ?v 0 0"
  note D = fsp_SomeD[OF s, unfolded cx cy]
  note R = fsp_ranges[OF s]
  have pin: "p \<in> set (points m)" using findPoint_SomeD[OF first] by simp
  have xin: "px p \<in> set ?u" and yin: "py p \<in> set ?v"
    using pin by (auto simp: set_uniqueSorted)
  have lenu: "2 \<le> length ?u" and lenv: "2 \<le> length ?v" using D by auto
  have X: "px p = ?u ! ?i \<or> px p = ?u ! (?i + 1)"
    using cell_index_at_member[OF uniqueSorted_strict xin lenu] by simp
  have Y: "py p = ?v ! ?j \<or> py p = ?v ! (?j + 1)"
    using cell_index_at_member[OF uniqueSorted_strict yin lenv] by simp
  have x0: "px (p00 s) = ?u ! ?i" and x1: "px (p10 s) = ?u ! (?i + 1)"
    and y0: "py (p00 s) = ?v ! ?j" and y1: "py (p01 s) = ?v ! (?j + 1)"
    using D by (auto dest!: findPoint_SomeD)
  have WX: "(px p = ?u ! ?i \<and> (px p - px (p00 s)) / (px (p10 s) - px (p00 s)) = 0) \<or>
            (px p = ?u ! (?i + 1) \<and> (px p - px (p00 s)) / (px (p10 s) - px (p00 s)) = 1)"
    using weight_cases[of "px (p00 s)" "px (p10 s)" "px p"] R X x0 x1 by simp
  have WY: "(py p = ?v ! ?j \<and> (py p - py (p00 s)) / (py (p01 s) - py (p00 s)) = 0) \<or>
            (py p = ?v ! (?j + 1) \<and> (py p - py (p00 s)) / (py (p01 s) - py (p00 s)) = 1)"
    using weight_cases[of "py (p00 s)" "py (p01 s)" "py p"] R Y y0 y1 by simp
  have "bilinear s ((px p - px (p00 s)) / (px (p10 s) - px (p00 s)))
                   ((py p - py (p00 s)) / (py (p01 s) - py (p00 s))) = pz p"
  proof -
    have P: "q = p" if "px p = a" "py p = b" "findPoint (points m) a b = Some q" for a b q
      using that first by simp
    from WX WY consider
        (c00) "px p = ?u ! ?i" "py p = ?v ! ?j"
          "(px p - px (p00 s)) / (px (p10 s) - px (p00 s)) = 0"
          "(py p - py (p00 s)) / (py (p01 s) - py (p00 s)) = 0"
      | (c10) "px p = ?u ! (?i + 1)" "py p = ?v ! ?j"
          "(px p - px (p00 s)) / (px (p10 s) - px (p00 s)) = 1"
          "(py p - py (p00 s)) / (py (p01 s) - py (p00 s)) = 0"
      | (c01) "px p = ?u ! ?i" "py p = ?v ! (?j + 1)"
          "(px p - px (p00 s)) / (px (p10 s) - px (p00 s)) = 0"
          "(py p - py (p00 s)) / (py (p01 s) - py (p00 s)) = 1"
      | (c11) "px p = ?u ! (?i + 1)" "py p = ?v ! (?j + 1)"
          "(px p - px (p00 s)) / (px (p10 s) - px (p00 s)) = 1"
          "(py p - py (p00 s)) / (py (p01 s) - py (p00 s)) = 1"
      by blast
    then show ?thesis
    proof cases
      case c00
      have "p00 s = p" using P[OF c00(1) c00(2)] D by blast
      then show ?thesis unfolding c00(3) c00(4) by (simp add: bilinear_corners)
    next
      case c10
      have "p10 s = p" using P[OF c10(1) c10(2)] D by blast
      then show ?thesis unfolding c10(3) c10(4) by (simp add: bilinear_corners)
    next
      case c01
      have "p01 s = p" using P[OF c01(1) c01(2)] D by blast
      then show ?thesis unfolding c01(3) c01(4) by (simp add: bilinear_corners)
    next
      case c11
      have "p11 s = p" using P[OF c11(1) c11(2)] D by blast
      then show ?thesis unfolding c11(3) c11(4) by (simp add: bilinear_corners)
    qed
  qed
  then show ?thesis using bilinearInterpolate_Some[OF s] by simp
qed

text \<open>
  Claim C8 as stated fails. A probe run over the 3 by 2 grid that stopped one point before
  its end stores the five samples of \<open>partialProbeMap\<close>; \<open>(1, 1)\<close> is one of them, with
  the height 5. The query \<open>(1, 1)\<close> selects the cell from \<open>(0, 0)\<close> to \<open>(1, 1)\<close>, whose
  corner \<open>(0, 1)\<close> is not stored, and \<open>bilinearInterpolate\<close> returns \<open>null\<close>.
\<close>

theorem interpolate_exact_counterexample:
  "\<lparr>px = 1, py = 1, pz = 5\<rparr> \<in> set (points partialProbeMap) \<and>
   bilinearInterpolate 1 1 partialProbeMap = None"
  by (simp add: bilinearInterpolate_def findSurroundingPoints_def partialProbeMap_def
        uniqueSorted_def clampX_def clampY_def findPoint_def findIndexLoop.simps Let_def)

theorem interpolate_exact_at_sample_witness:
  "findPoint (points unitSquareMap) 1 1 = Some \<lparr>px = 1, py = 1, pz = 2\<rparr> \<and>
   isWithinBounds 1 1 unitSquareMap \<and>
   findSurroundingPoints 1 1 unitSquareMap \<noteq> None \<and>
   bilinearInterpolate 1 1 unitSquareMap = Some 2"
proof -
  have h1: "findPoint (points unitSquareMap) (px \<lparr>px = 1, py = 1, pz = 2\<rparr>) (py \<lparr>px = 1, py = 1, pz = 2\<rparr>)
            = Some \<lparr>px = 1, py = 1, pz = 2\<rparr>"
    by (simp add: findPoint_def unitSquareMap_def)
  have h2: "isWithinBounds (px \<lparr>px = 1, py = 1, pz = 2\<rparr>) (py \<lparr>px = 1, py = 1, pz = 2\<rparr>) unitSquareMap"
    by (simp add: isWithinBounds_def unitSquareMap_def)
  have h3: "findSurroundingPoints (px \<lparr>px = 1, py = 1, pz = 2\<rparr>) (py \<lparr>px = 1, py = 1, pz = 2\<rparr>) unitSquareMap \<noteq> None"
    by (simp add: findSurroundingPoints_def unitSquareMap_def uniqueSorted_def
        clampX_def clampY_def findPoint_def findIndexLoop.simps Let_def)
  show ?thesis using h1 h2 h3 interpolate_exact_at_sample[OF h1 h2 h3] by simp
qed

text \<open>
  Claim C2. \<open>getZOffset\<close> returns 0 for the map \<open>null\<close>, for a map without points, and
  when \<open>bilinearInterpolate\<close> returns \<open>null\<close>, which it does when the cell lookup fails;
  otherwise it returns the interpolated value. It is a total function: each call returns
  a number.
\<close>

theorem getZOffset_never_fails:
  "getZOffset x y None = 0 \<and>
   (points m = [] \<longrightarrow> getZOffset x y (Some m) = 0) \<and>
   (bilinearInterpolate x y m = None \<longrightarrow> getZOffset x y (Some m) = 0) \<and>
   (findSurroundingPoints x y m = None \<longrightarrow> bilinearInterpolate x y m = None) \<and>
   (points m \<noteq> [] \<longrightarrow> bilinearInterpolate x y m = Some v \<longrightarrow> getZOffset x y (Some m) = v)"
  by (simp add: getZOffset_def bilinearInterpolate_def)

theorem getZOffset_never_fails_witness:
  "getZOffset 2 (1/2) None = 0 \<and>
   getZOffset 2 (1/2) (Some (unitSquareMap\<lparr>points := []\<rparr>)) = 0 \<and>
   bilinearInterpolate 1 1 partialProbeMap = None \<and>
   findSurroundingPoints 1 1 partialProbeMap = None \<and>
   getZOffset 1 1 (Some partialProbeMap) = 0 \<and>
   points unitSquareMap \<noteq> [] \<and>
   bilinearInterpolate 1 1 unitSquareMap = Some 2 \<and>
   getZOffset 1 1 (Some unitSquareMap) = 2"
proof -
  have e: "points (unitSquareMap\<lparr>points := []\<rparr>) = []" by simp
  have n: "findSurroundingPoints 1 1 partialProbeMap = None"
    by (simp add: findSurroundingPoints_def partialProbeMap_def
        uniqueSorted_def clampX_def clampY_def findPoint_def findIndexLoop.simps Let_def)
  have ne: "points unitSquareMap \<noteq> []" by (simp add: unitSquareMap_def)
  have c: "findSurroundingPoints 1 1 unitSquareMap = Some unitSquareCell"
    by (simp add: findSurroundingPoints_def unitSquareMap_def unitSquareCell_def uniqueSorted_def
        clampX_def clampY_def findPoint_def findIndexLoop.simps Let_def)
  have v: "bilinearInterpolate 1 1 unitSquareMap = Some 2"
    by (simp add: bilinearInterpolate_def c) (simp add: unitSquareCell_def bilinear_def)
  show ?thesis
    using getZOffset_never_fails[of 2 "1/2" "unitSquareMap\<lparr>points := []\<rparr>"] e
      getZOffset_never_fails[of 1 1 partialProbeMap] n
      getZOffset_never_fails[of 1 1 unitSquareMap 2] ne v
    by simp
qed

section \<open>Properties of the G-code transformation\<close>

lemma processLine_skipped:
  "skipped line \<Longrightarrow> processLine nts m opts st line = Some (passThrough st line)"
  by (auto simp: processLine_def skipped_def Let_def)

lemma processLine_absoluteSwitch:
  "absoluteSwitch line \<Longrightarrow>
   processLine nts m opts st line = Some (passThrough (st\<lparr>absoluteMode := True\<rparr>) line)"
  by (auto simp: processLine_def absoluteSwitch_def skipped_def Let_def)

lemma processLine_incrementalSwitch:
  "incrementalSwitch line \<Longrightarrow>
   processLine nts m opts st line = Some (passThrough (st\<lparr>absoluteMode := False\<rparr>) line)"
  by (auto simp: processLine_def incrementalSwitch_def skipped_def Let_def)

lemma processLine_incremental:
  "\<not> absoluteMode st \<Longrightarrow> \<not> absoluteSwitch line \<Longrightarrow>
   processLine nts m opts st line = Some (passThrough st line)"
  by (auto simp: processLine_def absoluteSwitch_def skipped_def passThrough_def Let_def)

lemma moveType_parse: "moveType (parseGcodeLine line a b c) \<in> {G0, G1, Other}"
  by (simp add: parseGcodeLine_def Let_def)

lemma processLine_parsed:
  "parsedLine st line \<Longrightarrow>
   processLine nts m opts st line =
     (let parsed = parsedMove st line;
          st1 = checkBounds opts m st parsed
      in if moveType parsed \<noteq> Other then
           (case transformLine nts parsed (currentX st) (currentY st) (currentZ st) m opts of
              None \<Rightarrow> None
            | Some newLines \<Rightarrow>
                Some (st1\<lparr>transformedLines := transformedLines st1 @ newLines,
                          currentX := orElse (moveX parsed) (currentX st),
                          currentY := orElse (moveY parsed) (currentY st),
                          currentZ := orElse (moveZ parsed) (currentZ st)\<rparr>))
         else Some (passThrough st1 line))"
proof -
  have cb: "currentX (checkBounds opts m st p) = currentX st"
           "currentY (checkBounds opts m st p) = currentY st"
           "currentZ (checkBounds opts m st p) = currentZ st" for p
    by (simp_all add: checkBounds_def Let_def)
  have ty: "(moveType (parsedMove st line) = G0 \<or> moveType (parsedMove st line) = G1) =
            (moveType (parsedMove st line) \<noteq> Other)"
    using moveType_parse[of line "currentX st" "currentY st" "currentZ st"]
    by (auto simp: parsedMove_def)
  assume "parsedLine st line"
  then show ?thesis
    unfolding processLine_def parsedMove_def[symmetric] Let_def
    by (auto simp: parsedLine_def absoluteSwitch_def incrementalSwitch_def skipped_def cb ty split: option.splits)
qed

lemma processLines_append:
  "processLines nts m opts st (as @ bs) =
     (case processLines nts m opts st as of
        None \<Rightarrow> None
      | Some st' \<Rightarrow> processLines nts m opts st' bs)"
  by (induction as arbitrary: st) (auto split: option.splits)

lemma checkBounds_lines: "transformedLines (checkBounds opts m st p) = transformedLines st"
  by (simp add: checkBounds_def Let_def)

lemma checkBounds_mode: "absoluteMode (checkBounds opts m st p) = absoluteMode st"
  by (simp add: checkBounds_def Let_def)

lemma checkBounds_pos:
  "currentX (checkBounds opts m st p) = currentX st"
  "currentY (checkBounds opts m st p) = currentY st"
  "currentZ (checkBounds opts m st p) = currentZ st"
  by (simp_all add: checkBounds_def Let_def)

lemma line_cases:
  "skipped line \<or> absoluteSwitch line \<or> incrementalSwitch line \<or>
   (\<not> absoluteMode (st :: EngineState) \<and> \<not> absoluteSwitch line) \<or> parsedLine st line"
  unfolding parsedLine_def by blast

lemma processLine_extends:
  assumes "processLine nts m opts st line = Some st'"
  shows "\<exists>out. transformedLines st' = transformedLines st @ out"
proof -
  consider "skipped line" | "absoluteSwitch line" | "incrementalSwitch line"
    | "\<not> absoluteMode st \<and> \<not> absoluteSwitch line" | "parsedLine st line"
    using line_cases[of line st] by blast
  then show ?thesis
  proof cases
    case 1
    then show ?thesis using assms by (auto simp: processLine_skipped passThrough_def)
  next
    case 2
    then show ?thesis using assms by (auto simp: processLine_absoluteSwitch passThrough_def)
  next
    case 3
    then show ?thesis using assms by (auto simp: processLine_incrementalSwitch passThrough_def)
  next
    case 4
    then show ?thesis using assms by (auto simp: processLine_incremental passThrough_def)
  next
    case 5
    then show ?thesis using assms
      by (auto simp: processLine_parsed Let_def passThrough_def checkBounds_lines
               split: if_splits option.splits)
  qed
qed

lemma processLines_extends:
  "processLines nts m opts st ls = Some st' \<Longrightarrow>
   \<exists>out. transformedLines st' = transformedLines st @ out"
proof (induction ls arbitrary: st)
  case Nil
  then show ?case by simp
next
  case (Cons l ls)
  from Cons.prems obtain s1 where s1: "processLine nts m opts st l = Some s1"
    and r: "processLines nts m opts s1 ls = Some st'"
    by (auto split: option.splits)
  from processLine_extends[OF s1] Cons.IH[OF r] show ?case by auto
qed

lemma incremental_run:
  assumes "\<not> absoluteMode st" "\<forall>l \<in> set ls. \<not> absoluteSwitch l"
  shows "processLines nts m opts st ls = Some (st\<lparr>transformedLines := transformedLines st @ ls\<rparr>)"
  using assms
proof (induction ls arbitrary: st)
  case Nil
  then show ?case by simp
next
  case (Cons l ls)
  have step: "processLine nts m opts st l = Some (passThrough st l)"
    using Cons.prems by (simp add: processLine_incremental)
  have "processLines nts m opts (passThrough st l) ls =
        Some ((passThrough st l)\<lparr>transformedLines := transformedLines (passThrough st l) @ ls\<rparr>)"
    using Cons.prems by (intro Cons.IH) (simp_all add: passThrough_def)
  then show ?case using step by (simp add: passThrough_def)
qed

lemma transformLine_returns:
  "segmentLength opts \<noteq> 0 \<Longrightarrow> transformLine nts p a b c m opts \<noteq> None"
  by (auto simp: transformLine_def segmentLine_def Let_def split: option.splits)

lemma processLine_returns:
  "segmentLength opts \<noteq> 0 \<Longrightarrow> \<exists>st'. processLine nts m opts st line = Some st'"
proof -
  assume nz: "segmentLength opts \<noteq> 0"
  consider "skipped line" | "absoluteSwitch line" | "incrementalSwitch line"
    | "\<not> absoluteMode st \<and> \<not> absoluteSwitch line" | "parsedLine st line"
    using line_cases[of line st] by blast
  then show ?thesis
  proof cases
    case 5
    obtain ls where "transformLine nts (parsedMove st line) (currentX st) (currentY st)
        (currentZ st) m opts = Some ls"
      using transformLine_returns[OF nz] by blast
    then show ?thesis using 5 by (simp add: processLine_parsed Let_def)
  qed (simp_all add: processLine_skipped processLine_absoluteSwitch
         processLine_incrementalSwitch processLine_incremental)
qed

lemma processLines_returns:
  "segmentLength opts \<noteq> 0 \<Longrightarrow> \<exists>st'. processLines nts m opts st ls = Some st'"
proof (induction ls arbitrary: st)
  case Nil
  then show ?case by simp
next
  case (Cons l ls)
  from processLine_returns[OF Cons.prems] obtain s1 where
    "processLine nts m opts st l = Some s1" by blast
  then show ?case using Cons.IH[OF Cons.prems, of s1] by simp
qed

lemma transformGcode_returns:
  "segmentLength opts \<noteq> 0 \<Longrightarrow> \<exists>r. transformGcode nts gcode m opts = Some r"
proof -
  assume "segmentLength opts \<noteq> 0"
  from processLines_returns[OF this] obtain st where
    "processLines nts m opts (initialState nts m) (split gcode) = Some st" by blast
  then show ?thesis by (simp add: transformGcode_def)
qed

text \<open>
  Claim C10. A line that is neither blank nor a comment and whose trimmed text holds
  \<open>G90\<close> or \<open>G91\<close> somewhere, in either case of the letter, is only a switch of the
  positioning mode, from any state: the line is appended to the output as it is, the mode
  flag becomes true for \<open>G90\<close> (which is tested first) and false for \<open>G91\<close>, and all the
  rest of the state is as before: no adjusted or segmented line is built, and the tracked
  position and the warnings stay. Whether the line also carries a G0 or G1 command with
  coordinates plays no role.
\<close>

theorem mode_switch_line_only_switches:
  assumes "\<not> skipped line"
    and "containsText ''G90'' (toUpperCase (trim line)) \<or>
         containsText ''G91'' (toUpperCase (trim line))"
  shows "processLine nts m opts st line =
         Some (st\<lparr>transformedLines := transformedLines st @ [line],
                  absoluteMode := containsText ''G90'' (toUpperCase (trim line))\<rparr>)"
proof (cases "containsText ''G90'' (toUpperCase (trim line))")
  case True
  then have "absoluteSwitch line" using assms by (simp add: absoluteSwitch_def)
  then show ?thesis using True by (simp add: processLine_absoluteSwitch passThrough_def)
next
  case False
  then have "incrementalSwitch line" using assms by (simp add: incrementalSwitch_def)
  then show ?thesis using False by (simp add: processLine_incrementalSwitch passThrough_def)
qed

text \<open>
  Claim C4. From any state, once an incremental switch \<open>sw\<close> is processed, the lines \<open>ls\<close>
  that follow it up to the next absolute switch are appended to the output as they are,
  motion lines among them; the state is otherwise unchanged and the mode stays
  incremental. For a whole program that \<open>split\<close> cuts into \<open>pre\<close>, the switch, \<open>ls\<close> and
  \<open>rest\<close>, the text returned by \<open>transformGcode\<close> holds the switch and \<open>ls\<close>, unchanged,
  right after the lines written for \<open>pre\<close>; \<open>transformGcode\<close> returns when the segment
  length is not 0.
\<close>

theorem incremental_mode_passes_through:
  assumes sw: "incrementalSwitch sw"
    and ls: "\<forall>l \<in> set ls. \<not> absoluteSwitch l"
  shows "processLines nts m opts st (sw # ls) =
           Some (st\<lparr>transformedLines := transformedLines st @ sw # ls, absoluteMode := False\<rparr>) \<and>
         (segmentLength opts \<noteq> 0 \<longrightarrow> (\<exists>r. transformGcode nts gcode m opts = Some r)) \<and>
         (\<forall>r. split gcode = pre @ sw # ls @ rest \<longrightarrow>
               transformGcode nts gcode m opts = Some r \<longrightarrow>
               (\<exists>st1 out. processLines nts m opts (initialState nts m) pre = Some st1 \<and>
                  transformedGcode r = join (transformedLines st1 @ sw # ls @ out)))"
proof -
  have run: "processLines nts m opts st (sw # ls) =
           Some (st\<lparr>transformedLines := transformedLines st @ sw # ls, absoluteMode := False\<rparr>)" for st
  proof -
    let ?s = "passThrough (st\<lparr>absoluteMode := False\<rparr>) sw"
    have "processLines nts m opts ?s ls = Some (?s\<lparr>transformedLines := transformedLines ?s @ ls\<rparr>)"
      using ls by (intro incremental_run) (simp_all add: passThrough_def)
    then show ?thesis using sw by (simp add: processLine_incrementalSwitch passThrough_def)
  qed
  have prog: "\<exists>st1 out. processLines nts m opts (initialState nts m) pre = Some st1 \<and>
                  transformedGcode r = join (transformedLines st1 @ sw # ls @ out)"
    if sp: "split gcode = pre @ sw # ls @ rest" and tr: "transformGcode nts gcode m opts = Some r" for r
  proof -
    from tr obtain stf where f: "processLines nts m opts (initialState nts m) (split gcode) = Some stf"
      and r: "r = \<lparr>transformedGcode = join (transformedLines stf), resultWarnings = warnings stf\<rparr>"
      by (auto simp: transformGcode_def split: option.splits)
    have "split gcode = pre @ ((sw # ls) @ rest)" using sp by simp
    with f obtain st1 where p: "processLines nts m opts (initialState nts m) pre = Some st1"
      and q: "processLines nts m opts st1 ((sw # ls) @ rest) = Some stf"
      by (auto simp: processLines_append split: option.splits)
    from q run[of st1] have
      "processLines nts m opts (st1\<lparr>transformedLines := transformedLines st1 @ sw # ls, absoluteMode := False\<rparr>) rest = Some stf"
      by (simp only: processLines_append option.case)
    from processLines_extends[OF this] obtain out where
      "transformedLines stf = (transformedLines st1 @ sw # ls) @ out" by auto
    then show ?thesis using p r by auto
  qed
  show ?thesis using run prog transformGcode_returns[of opts nts gcode m] by blast
qed





lemma parse_has_target:
  "moveType (parseGcodeLine line a b c) \<noteq> Other \<Longrightarrow>
   moveX (parseGcodeLine line a b c) =
     Some (case matchField CHR ''X'' True (toUpperCase (trim line)) of
             Some lit \<Rightarrow> parseFloat lit | None \<Rightarrow> a) \<and>
   moveY (parseGcodeLine line a b c) =
     Some (case matchField CHR ''Y'' True (toUpperCase (trim line)) of
             Some lit \<Rightarrow> parseFloat lit | None \<Rightarrow> b) \<and>
   moveZ (parseGcodeLine line a b c) =
     Some (case matchField CHR ''Z'' True (toUpperCase (trim line)) of
             Some lit \<Rightarrow> parseFloat lit | None \<Rightarrow> c)"
  by (auto simp: parseGcodeLine_def Let_def split: if_splits)

lemma parse_other_no_axes:
  "moveType (parseGcodeLine line a b c) = Other \<Longrightarrow>
   \<not> hasX (parseGcodeLine line a b c) \<and> \<not> hasY (parseGcodeLine line a b c) \<and>
   \<not> hasZ (parseGcodeLine line a b c)"
  by (auto simp: parseGcodeLine_def Let_def split: if_splits)

lemma processLine_position_other:
  assumes "\<not> motionLine st line" "processLine nts m opts st line = Some st'"
  shows "currentX st' = currentX st \<and> currentY st' = currentY st \<and> currentZ st' = currentZ st"
proof -
  consider "skipped line" | "absoluteSwitch line" | "incrementalSwitch line"
    | "\<not> absoluteMode st \<and> \<not> absoluteSwitch line" | "parsedLine st line"
    using line_cases[of line st] by blast
  then show ?thesis
  proof cases
    case 1
    then show ?thesis using assms by (auto simp: processLine_skipped passThrough_def)
  next
    case 2
    then show ?thesis using assms by (auto simp: processLine_absoluteSwitch passThrough_def)
  next
    case 3
    then show ?thesis using assms by (auto simp: processLine_incrementalSwitch passThrough_def)
  next
    case 4
    then show ?thesis using assms by (auto simp: processLine_incremental passThrough_def)
  next
    case 5
    then have "moveType (parsedMove st line) = Other" using assms(1) by (simp add: motionLine_def)
    then show ?thesis using assms(2) 5
      by (auto simp: processLine_parsed Let_def passThrough_def checkBounds_pos)
  qed
qed

lemma processLine_position_motion:
  assumes "motionLine st line" "processLine nts m opts st line = Some st'"
  shows "currentX st' = (case matchField CHR ''X'' True (toUpperCase (trim line)) of
                           Some lit \<Rightarrow> parseFloat lit | None \<Rightarrow> currentX st) \<and>
         currentY st' = (case matchField CHR ''Y'' True (toUpperCase (trim line)) of
                           Some lit \<Rightarrow> parseFloat lit | None \<Rightarrow> currentY st) \<and>
         currentZ st' = (case matchField CHR ''Z'' True (toUpperCase (trim line)) of
                           Some lit \<Rightarrow> parseFloat lit | None \<Rightarrow> currentZ st)"
proof -
  have p: "parsedLine st line" and t: "moveType (parsedMove st line) \<noteq> Other"
    using assms(1) by (simp_all add: motionLine_def)
  note tg = parse_has_target[OF t[unfolded parsedMove_def], folded parsedMove_def]
  show ?thesis using assms(2) t tg
    by (auto simp: processLine_parsed[OF p] Let_def orElse_def split: option.splits)
qed

text \<open>
  Claim C9. A motion line is a line that the loop parses in the absolute mode (it is not
  blank, not a comment and not a mode switch) and that \<open>parseGcodeLine\<close> types as G0 or
  G1. Each step returns when the segment length is not 0. After the step for a motion
  line the tracked position is the target written on the line, read by \<open>parseFloat\<close> from
  the X, Y and Z words, with the former tracked value for an axis that has no word on the
  line; the height map, and so the Z offset of the emitted line, has no part in it. After
  the step for any other line the tracked position is as before.
\<close>

theorem tracked_position_is_nominal_target:
  "(segmentLength opts \<noteq> 0 \<longrightarrow> (\<exists>st'. processLine nts m opts st line = Some st')) \<and>
   (\<forall>st'. processLine nts m opts st line = Some st' \<longrightarrow>
      (motionLine st line \<longrightarrow>
         currentX st' = (case matchField CHR ''X'' True (toUpperCase (trim line)) of
                           Some lit \<Rightarrow> parseFloat lit | None \<Rightarrow> currentX st) \<and>
         currentY st' = (case matchField CHR ''Y'' True (toUpperCase (trim line)) of
                           Some lit \<Rightarrow> parseFloat lit | None \<Rightarrow> currentY st) \<and>
         currentZ st' = (case matchField CHR ''Z'' True (toUpperCase (trim line)) of
                           Some lit \<Rightarrow> parseFloat lit | None \<Rightarrow> currentZ st)) \<and>
      (\<not> motionLine st line \<longrightarrow>
         currentX st' = currentX st \<and> currentY st' = currentY st \<and> currentZ st' = currentZ st))"
  using processLine_returns[of opts nts m st line]
    processLine_position_motion[of st line nts m opts]
    processLine_position_other[of st line nts m opts]
  by blast

lemma checkBounds_warns:
  "parsedLine st line \<Longrightarrow>
   checkBounds opts m st (parsedMove st line) =
     (if warns opts m st line
      then st\<lparr>warnings := warnings st @ [boundsWarning], outsideBoundsWarned := True\<rparr>
      else st)"
  by (auto simp: checkBounds_def warns_def xyTargetOutside_def Let_def)

lemma processLine_warnings:
  assumes "processLine nts m opts st line = Some st'"
  shows "(warns opts m st line \<longrightarrow>
            warnings st' = warnings st @ [boundsWarning] \<and> outsideBoundsWarned st') \<and>
         (\<not> warns opts m st line \<longrightarrow>
            warnings st' = warnings st \<and> outsideBoundsWarned st' = outsideBoundsWarned st)"
proof -
  consider "skipped line" | "absoluteSwitch line" | "incrementalSwitch line"
    | "\<not> absoluteMode st \<and> \<not> absoluteSwitch line" | "parsedLine st line"
    using line_cases[of line st] by blast
  then show ?thesis
  proof cases
    case 1
    then show ?thesis using assms
      by (auto simp: processLine_skipped passThrough_def warns_def parsedLine_def)
  next
    case 2
    then show ?thesis using assms
      by (auto simp: processLine_absoluteSwitch passThrough_def warns_def parsedLine_def)
  next
    case 3
    then show ?thesis using assms
      by (auto simp: processLine_incrementalSwitch passThrough_def warns_def parsedLine_def)
  next
    case 4
    then show ?thesis using assms
      by (auto simp: processLine_incremental passThrough_def warns_def parsedLine_def)
  next
    case 5
    then show ?thesis using assms
      by (auto simp: processLine_parsed checkBounds_warns Let_def passThrough_def
               split: if_splits option.splits)
  qed
qed

lemma processLine_warnedOnce:
  "warnedOnce st \<Longrightarrow> processLine nts m opts st line = Some st' \<Longrightarrow> warnedOnce st'"
  using processLine_warnings[of nts m opts st line st']
  by (cases "warns opts m st line") (auto simp: warnedOnce_def warns_def split: if_splits)

lemma processLines_warnedOnce:
  "warnedOnce st \<Longrightarrow> processLines nts m opts st ls = Some st' \<Longrightarrow> warnedOnce st'"
proof (induction ls arbitrary: st)
  case Nil
  then show ?case by simp
next
  case (Cons l ls)
  from Cons.prems(2) obtain s1 where s1: "processLine nts m opts st l = Some s1"
    and r: "processLines nts m opts s1 ls = Some st'"
    by (auto split: option.splits)
  show ?case using Cons.IH[OF processLine_warnedOnce[OF Cons.prems(1) s1] r] .
qed

lemma processLines_warned_stays:
  "outsideBoundsWarned st \<Longrightarrow> processLines nts m opts st ls = Some st' \<Longrightarrow>
   warnings st' = warnings st \<and> outsideBoundsWarned st'"
proof (induction ls arbitrary: st)
  case Nil
  then show ?case by simp
next
  case (Cons l ls)
  from Cons.prems(2) obtain s1 where s1: "processLine nts m opts st l = Some s1"
    and r: "processLines nts m opts s1 ls = Some st'"
    by (auto split: option.splits)
  have nw: "\<not> warns opts m st l" using Cons.prems(1) by (simp add: warns_def)
  have "warnings s1 = warnings st \<and> outsideBoundsWarned s1"
    using processLine_warnings[OF s1] nw Cons.prems(1) by simp
  then show ?case using Cons.IH[OF _ r] by simp
qed

text \<open>
  Claim C5, as amended. A step appends the bounds warning exactly when \<open>warns\<close> holds:
  the warnings are enabled, none was given before, and the line is parsed in the absolute
  mode, carries an X or a Y word and has its target \<open>(x, y)\<close> outside the bounds of the
  map. Then the flag is set, and from a state with the flag set no run of lines adds a
  warning. \<open>transformGcode\<close> returns when the segment length is not 0, and the warnings
  it returns are none or the bounds warning once.
\<close>

theorem bounds_warning_once:
  "(\<forall>st'. processLine nts m opts st line = Some st' \<longrightarrow>
      (warns opts m st line \<longrightarrow>
         warnings st' = warnings st @ [boundsWarning] \<and> outsideBoundsWarned st') \<and>
      (\<not> warns opts m st line \<longrightarrow>
         warnings st' = warnings st \<and> outsideBoundsWarned st' = outsideBoundsWarned st)) \<and>
   (\<forall>st'. outsideBoundsWarned st \<longrightarrow> processLines nts m opts st ls = Some st' \<longrightarrow>
      warnings st' = warnings st) \<and>
   (segmentLength opts \<noteq> 0 \<longrightarrow> (\<exists>r. transformGcode nts gcode m opts = Some r)) \<and>
   (\<forall>r. transformGcode nts gcode m opts = Some r \<longrightarrow>
      resultWarnings r = [] \<or> resultWarnings r = [boundsWarning])"
proof -
  have g: "resultWarnings r = [] \<or> resultWarnings r = [boundsWarning]"
    if "transformGcode nts gcode m opts = Some r" for r
  proof -
    from that obtain stf where
      f: "processLines nts m opts (initialState nts m) (split gcode) = Some stf"
      and r: "resultWarnings r = warnings stf"
      by (auto simp: transformGcode_def split: option.splits)
    have "warnedOnce (initialState nts m)" by (simp add: warnedOnce_def initialState_def)
    from processLines_warnedOnce[OF this f] show ?thesis
      unfolding r warnedOnce_def by (auto split: if_splits)
  qed
  show ?thesis
    using processLine_warnings[of nts m opts st line] processLines_warned_stays[of st nts m opts ls] g
      transformGcode_returns[of opts nts gcode m]
    by blast
qed








lemma digit_chars:
  "char_of (48::nat) = CHR ''0''" "char_of (49::nat) = CHR ''1''" "char_of (50::nat) = CHR ''2''"
  "char_of (51::nat) = CHR ''3''" "char_of (52::nat) = CHR ''4''" "char_of (53::nat) = CHR ''5''"
  "char_of (54::nat) = CHR ''6''" "char_of (55::nat) = CHR ''7''" "char_of (56::nat) = CHR ''8''"
  "char_of (57::nat) = CHR ''9''"
  by code_simp+

lemma replicate_small:
  "replicate 1 c = [c]" "replicate 2 c = [c, c]" "replicate 3 c = [c, c, c]"
  "replicate 4 c = [c, c, c, c]"
  by (simp_all add: numeral_2_eq_2 numeral_3_eq_3 eval_nat_numeral)

text \<open>The doubles that occur in the examples of segmented moves.\<close>

lemma segment_doubles:
  "toDouble (1 / 4) = 1 / 4"
  "toDouble (3333 / 10000) = 6004199023210345 / 18014398509481984"
  "toDouble (6004799503160661 / 18014398509481984) = 6004799503160661 / 18014398509481984"
  "toDouble (1 / 3) = 6004799503160661 / 18014398509481984"
  "toDouble (2 / 5) = 3602879701896397 / 9007199254740992"
  "toDouble (1 / 2) = 1 / 2"
  "toDouble (21 / 40) = 4728779608739021 / 9007199254740992"
  "toDouble (4728779608739021 / 9007199254740992) = 4728779608739021 / 9007199254740992"
  "toDouble (6004799503160661 / 9007199254740992) = 6004799503160661 / 9007199254740992"
  "toDouble (2 / 3) = 6004799503160661 / 9007199254740992"
  "toDouble (6667 / 10000) = 6005099743135819 / 9007199254740992"
  "toDouble (7 / 10) = 3152519739159347 / 4503599627370496"
  "toDouble (3 / 4) = 3 / 4"
  "toDouble (21 / 20) = 4728779608739021 / 4503599627370496"
  "toDouble (4728779608739021 / 4503599627370496) = 4728779608739021 / 4503599627370496"
  "toDouble (63 / 40) = 7093169413108531 / 4503599627370496"
  "toDouble (14186338826217063 / 9007199254740992) = 1773292353277133 / 1125899906842624"
  "toDouble (1773292353277133 / 1125899906842624) = 1773292353277133 / 1125899906842624"
  "toDouble 2 = 2"
  "toDouble (21 / 10) = 4728779608739021 / 2251799813685248"
  "toDouble (4728779608739021 / 2251799813685248) = 4728779608739021 / 2251799813685248"
  "toDouble (9007199254740992 / 3602879701896397) = 5 / 2"
  "toDouble 3 = 3"
  "toDouble (9457559217478042 / 3152519739159347) = 6755399441055745 / 2251799813685248"
  "toDouble 4 = 4"
  "toDouble (1241304647293993 / 281474976710656) = 1241304647293993 / 281474976710656"
  "toDouble (22361356588025968533913688038441 / 5070602400912917605986812821504) = 1241304647293993 / 281474976710656"
  "toDouble 50 = 50"
  "toDouble 100 = 100"
  "toDouble 9999 = 9999"
  "toDouble 10000 = 10000"
  "toDouble 20001 = 20001"
  "toDouble 30000 = 30000"
                                  apply (subst toDouble_eval[where e = "- 2" and k = 4503599627370496]; simp)
                                 apply (subst toDouble_eval[where e = "- 2" and k = 6004199023210345]; simp)
                                apply (subst toDouble_eval[where e = "- 2" and k = 6004799503160661]; simp)
                               apply (subst toDouble_eval[where e = "- 2" and k = 6004799503160661]; simp)
                              apply (subst toDouble_eval[where e = "- 2" and k = 7205759403792794]; simp)
                             apply (subst toDouble_eval[where e = "- 1" and k = 4503599627370496]; simp)
                            apply (subst toDouble_eval[where e = "- 1" and k = 4728779608739021]; simp)
                           apply (subst toDouble_eval[where e = "- 1" and k = 4728779608739021]; simp)
                          apply (subst toDouble_eval[where e = "- 1" and k = 6004799503160661]; simp)
                         apply (subst toDouble_eval[where e = "- 1" and k = 6004799503160661]; simp)
                        apply (subst toDouble_eval[where e = "- 1" and k = 6005099743135819]; simp)
                       apply (subst toDouble_eval[where e = "- 1" and k = 6305039478318694]; simp)
                      apply (subst toDouble_eval[where e = "- 1" and k = 6755399441055744]; simp)
                     apply (subst toDouble_eval[where e = 0 and k = 4728779608739021]; simp)
                    apply (subst toDouble_eval[where e = 0 and k = 4728779608739021]; simp)
                   apply (subst toDouble_eval[where e = 0 and k = 7093169413108531]; simp)
                  apply (subst toDouble_tie[where e = 0 and f = 7093169413108531]; simp)
                 apply (subst toDouble_eval[where e = 0 and k = 7093169413108532]; simp)
                apply (subst toDouble_eval[where e = 1 and k = 4503599627370496]; simp)
               apply (subst toDouble_eval[where e = 1 and k = 4728779608739021]; simp)
              apply (subst toDouble_eval[where e = 1 and k = 4728779608739021]; simp)
             apply (subst toDouble_eval[where e = 1 and k = 5629499534213120]; simp)
            apply (subst toDouble_eval[where e = 1 and k = 6755399441055744]; simp)
           apply (subst toDouble_eval[where e = 1 and k = 6755399441055745]; simp)
          apply (subst toDouble_eval[where e = 2 and k = 4503599627370496]; simp)
         apply (subst toDouble_eval[where e = 2 and k = 4965218589175972]; simp)
        apply (subst toDouble_eval[where e = 2 and k = 4965218589175972]; simp)
       apply (subst toDouble_eval[where e = 5 and k = 7036874417766400]; simp)
      apply (subst toDouble_eval[where e = 6 and k = 7036874417766400]; simp)
     apply (subst toDouble_eval[where e = 13 and k = 5497008383066112]; simp)
    apply (subst toDouble_eval[where e = 13 and k = 5497558138880000]; simp)
   apply (subst toDouble_eval[where e = 14 and k = 5497833016786944]; simp)
  apply (subst toDouble_eval[where e = 14 and k = 8246337208320000]; simp)
  done

lemma segment_roots:
  "toDouble (sqrt 1) = 1"
  "toDouble (sqrt (1241304647293993 / 281474976710656)) = 4728779608739021 / 2251799813685248"
  "toDouble (sqrt 10000) = 100"
    apply (subst toDouble_sqrt_eval[where e = 0 and k = 4503599627370496]; simp add: power2_eq_square)
   apply (subst toDouble_sqrt_eval[where e = 1 and k = 4728779608739021]; simp add: power2_eq_square)
  apply (subst toDouble_sqrt_eval[where e = 6 and k = 7036874417766400]; simp add: power2_eq_square)
  done

lemma toFixed_eval:
  "nat \<lfloor>\<bar>toDouble v\<bar> * 10 ^ d + 1 / 2\<rfloor> = n \<Longrightarrow>
   toFixed d v = (if v < 0 then [CHR ''-''] else []) @ digitsOf (n div 10 ^ d) @
         (if d = 0 then [] else CHR ''.'' # replicate (d - length (digitsOf (n mod 10 ^ d))) CHR ''0'' @ digitsOf (n mod 10 ^ d))"
  by (simp add: toFixed_def Let_def)

lemma toFixed_examples:
  "toFixed 4 0 = ''0.0000''" "toFixed 4 (1/2) = ''0.5000''" "toFixed 4 1 = ''1.0000''"
  "toFixed 4 50 = ''50.0000''" "toFixed 4 100 = ''100.0000''"
      apply (subst toFixed_eval[where n = 0]; simp add: segment_doubles digitsOf.simps digit_chars replicate_small)
     apply (subst toFixed_eval[where n = 5000]; simp add: segment_doubles digitsOf.simps digit_chars replicate_small)
    apply (subst toFixed_eval[where n = 10000]; simp add: segment_doubles digitsOf.simps digit_chars replicate_small)
   apply (subst toFixed_eval[where n = 500000]; simp add: segment_doubles digitsOf.simps digit_chars replicate_small)
  apply (subst toFixed_eval[where n = 1000000]; simp add: segment_doubles digitsOf.simps digit_chars replicate_small)
  done




lemma distance_examples:
  "distance2D 0 0 100 0 = 100" "distance2D 0 0 1 0 = 1"
  "distance2D 0 0 (21 / 10) 0 = 4728779608739021 / 2251799813685248"
  by (simp_all add: distance2D_def dadd_def dsub_def dmul_def dsqrt_def segment_doubles segment_roots)







text \<open>
  Decimal ties. The decimals 1.0005 and 2.00005 are not doubles: the doubles nearest to
  them lie below them, and \<open>toFixed\<close> rounds these down. The double 0.03125 lies halfway
  between 0.0312 and 0.0313, and \<open>toFixed\<close> takes the larger.
\<close>

lemma tie_doubles:
  "toDouble (1 / 32) = 1 / 32"
  "toDouble (2001 / 2000) = 4505851427184181 / 4503599627370496"
  "toDouble (40001 / 20000) = 1125928054340295 / 562949953421312"
  "toDouble 10 = 10"
     apply (subst toDouble_eval[where e = "- 5" and k = 4503599627370496]; simp)
    apply (subst toDouble_eval[where e = 0 and k = 4505851427184181]; simp)
   apply (subst toDouble_eval[where e = 1 and k = 4503712217361180]; simp)
  apply (subst toDouble_eval[where e = 3 and k = 5629499534213120]; simp)
  done

lemma tie_roots:
  "toDouble (sqrt 100) = 10"
  apply (subst toDouble_sqrt_eval[where e = 3 and k = 5629499534213120]; simp add: power2_eq_square)
  done

lemma decimal_ties:
  "toFixedNumber 3 (2001 / 2000) = 1" "toFixedNumber 4 (40001 / 20000) = 2"
  "toFixedNumber 4 (1 / 32) = 313 / 10000"
  by (simp_all add: toFixedNumber_def Let_def tie_doubles)

lemma toFixed_tie: "toFixed 4 (40001 / 20000) = ''2.0000''"
  by (subst toFixed_eval[where n = 20000]; simp add: tie_doubles digitsOf.simps digit_chars replicate_small)

lemma upto_small: "[1..2::int] = [1, 2]" "[1..3::int] = [1, 2, 3]" "[1..4::int] = [1, 2, 3, 4]"
  by (simp_all add: upto.simps)

text \<open>
  \<open>segmentLine\<close> on a path of length 2.1 with the segment length 0.7, and on a path of
  length 10 with the segment length -1.
\<close>

lemma segmentLine_examples:
  "segmentLine 0 0 0 (21 / 10) 0 0 (7 / 10) =
     Some [(21 / 40, 0, 0), (21 / 20, 0, 0), (63 / 40, 0, 0), (21 / 10, 0, 0)]"
  "segmentLine 0 0 0 10 0 0 (- 1) = Some []"
  by (simp_all add: segmentLine_def Let_def distance2D_def dadd_def dsub_def dmul_def ddiv_def
        dsqrt_def segment_doubles segment_roots tie_doubles tie_roots upto_small
        toFixedNumber_def)

lemma initial_fields:
  "currentX (initialState nts m) = 0" "currentY (initialState nts m) = 0"
  "currentZ (initialState nts m) = 0" "absoluteMode (initialState nts m)"
  "\<not> outsideBoundsWarned (initialState nts m)" "warnings (initialState nts m) = []"
  "transformedLines (initialState nts m) = headerLines nts m"
  by (simp_all add: initialState_def)

lemma motionLine_initial:
  "motionLine (initialState nts m) line =
     (\<not> skipped line \<and> \<not> absoluteSwitch line \<and> \<not> incrementalSwitch line \<and>
      moveType (parseGcodeLine line 0 0 0) \<noteq> Other)"
  by (simp add: motionLine_def parsedLine_def parsedMove_def initial_fields)

lemma parsedMove_initial: "parsedMove (initialState nts m) line = parseGcodeLine line 0 0 0"
  by (simp add: parsedMove_def initial_fields)







lemma switch_line_class:
  "\<not> skipped ''G90 G0 X10 Y10''"
  "containsText ''G90'' (toUpperCase (trim ''G90 G0 X10 Y10''))"
  "\<not> skipped ''g91 g1 x5 y5''"
  "\<not> containsText ''G90'' (toUpperCase (trim ''g91 g1 x5 y5''))"
  "containsText ''G91'' (toUpperCase (trim ''g91 g1 x5 y5''))"
  by code_simp+

theorem mode_switch_line_only_switches_witness:
  "\<not> skipped ''G90 G0 X10 Y10'' \<and>
   containsText ''G90'' (toUpperCase (trim ''G90 G0 X10 Y10'')) \<and>
   processLine plainNumber unitSquareMap defaultOptions
     ((initialState plainNumber unitSquareMap)\<lparr>absoluteMode := False\<rparr>) ''G90 G0 X10 Y10'' =
     Some \<lparr>transformedLines = headerLines plainNumber unitSquareMap @ [''G90 G0 X10 Y10''],
           warnings = [], currentX = 0, currentY = 0, currentZ = 0, absoluteMode = True,
           outsideBoundsWarned = False\<rparr> \<and>
   \<not> skipped ''g91 g1 x5 y5'' \<and>
   containsText ''G91'' (toUpperCase (trim ''g91 g1 x5 y5'')) \<and>
   processLine plainNumber unitSquareMap defaultOptions
     (initialState plainNumber unitSquareMap) ''g91 g1 x5 y5'' =
     Some \<lparr>transformedLines = headerLines plainNumber unitSquareMap @ [''g91 g1 x5 y5''],
           warnings = [], currentX = 0, currentY = 0, currentZ = 0, absoluteMode = False,
           outsideBoundsWarned = False\<rparr>"
proof -
  have a: "containsText ''G90'' (toUpperCase (trim ''G90 G0 X10 Y10'')) \<or>
           containsText ''G91'' (toUpperCase (trim ''G90 G0 X10 Y10''))"
    by (simp add: switch_line_class)
  have b: "containsText ''G90'' (toUpperCase (trim ''g91 g1 x5 y5'')) \<or>
           containsText ''G91'' (toUpperCase (trim ''g91 g1 x5 y5''))"
    by (simp add: switch_line_class)
  show ?thesis
    using mode_switch_line_only_switches[OF switch_line_class(1) a,
            of plainNumber unitSquareMap defaultOptions
               "(initialState plainNumber unitSquareMap)\<lparr>absoluteMode := False\<rparr>"]
      mode_switch_line_only_switches[OF switch_line_class(3) b,
            of plainNumber unitSquareMap defaultOptions "initialState plainNumber unitSquareMap"]
    by (simp add: switch_line_class initialState_def)
qed

lemma incremental_program_class:
  "incrementalSwitch ''G91''" "\<not> absoluteSwitch ''G1 X10 Y10 Z-1''"
  "split (''G91'' @ [CHR 0x0A] @ ''G1 X10 Y10 Z-1'') = [''G91'', ''G1 X10 Y10 Z-1'']"
  by code_simp+

theorem incremental_mode_passes_through_witness:
  "incrementalSwitch ''G91'' \<and> \<not> absoluteSwitch ''G1 X10 Y10 Z-1'' \<and>
   split (''G91'' @ [CHR 0x0A] @ ''G1 X10 Y10 Z-1'') = [] @ ''G91'' # [''G1 X10 Y10 Z-1''] @ [] \<and>
   transformGcode plainNumber (''G91'' @ [CHR 0x0A] @ ''G1 X10 Y10 Z-1'') rampMap defaultOptions =
     Some \<lparr>transformedGcode = join (headerLines plainNumber rampMap @ [''G91'', ''G1 X10 Y10 Z-1'']),
           resultWarnings = []\<rparr>"
proof -
  have ls: "\<forall>l \<in> set [''G1 X10 Y10 Z-1'']. \<not> absoluteSwitch l"
    by (simp add: incremental_program_class)
  note t = incremental_mode_passes_through[OF incremental_program_class(1) ls,
      of plainNumber rampMap defaultOptions "initialState plainNumber rampMap"]
  from t have run: "processLines plainNumber rampMap defaultOptions (initialState plainNumber rampMap)
          [''G91'', ''G1 X10 Y10 Z-1''] =
        Some ((initialState plainNumber rampMap)
               \<lparr>transformedLines := transformedLines (initialState plainNumber rampMap) @
                   [''G91'', ''G1 X10 Y10 Z-1''], absoluteMode := False\<rparr>)"
    by blast
  show ?thesis
    unfolding transformGcode_def incremental_program_class(3) run
    by (simp add: incremental_program_class initialState_def)
qed

lemma short_move_class:
  "\<not> skipped ''G1 X1 Z-1''" "\<not> absoluteSwitch ''G1 X1 Z-1''" "\<not> incrementalSwitch ''G1 X1 Z-1''"
  "\<not> skipped ''M3 S1000''" "\<not> absoluteSwitch ''M3 S1000''" "\<not> incrementalSwitch ''M3 S1000''"
  by code_simp+

lemma short_move_parse:
  "parseGcodeLine ''G1 X1 Z-1'' 0 0 0 =
     \<lparr>moveType = G1, originalLine = ''G1 X1 Z-1'', moveX = Some 1, moveY = Some 0,
      moveZ = Some (- 1), moveF = None, hasX = True, hasY = False, hasZ = True\<rparr>"
  "moveType (parseGcodeLine ''M3 S1000'' 0 0 0) = Other"
  by code_simp+

lemma short_move_fields:
  "matchField CHR ''X'' True (toUpperCase (trim ''G1 X1 Z-1'')) = Some ''1''"
  "matchField CHR ''Y'' True (toUpperCase (trim ''G1 X1 Z-1'')) = None"
  "matchField CHR ''Z'' True (toUpperCase (trim ''G1 X1 Z-1'')) = Some ''-1''"
  "parseFloat ''1'' = 1" "parseFloat ''-1'' = - 1"
  by code_simp+

lemma unitSquare_offset: "getZOffset 1 0 (Some unitSquareMap) = 1"
  by (simp add: getZOffset_def bilinearInterpolate_def findSurroundingPoints_def unitSquareMap_def
        uniqueSorted_def clampX_def clampY_def findPoint_def findIndexLoop.simps Let_def bilinear_def)

lemma short_move_line:
  "transformLine plainNumber
     \<lparr>moveType = G1, originalLine = ''G1 X1 Z-1'', moveX = Some 1, moveY = Some 0,
      moveZ = Some (- 1), moveF = None, hasX = True, hasY = False, hasZ = True\<rparr>
     0 0 0 unitSquareMap defaultOptions =
     Some [''G1 X1.0000 Z0.0000'']"
  by (simp add: transformLine_def Let_def orElse_def distance_examples dadd_def
        defaultOptions_def unitSquare_offset buildGcodeLine_def moveTypeText_def toFixed_examples)

theorem tracked_position_is_nominal_target_witness:
  "motionLine (initialState plainNumber unitSquareMap) ''G1 X1 Z-1'' \<and>
   segmentLength defaultOptions \<noteq> 0 \<and>
   (\<exists>st'. processLine plainNumber unitSquareMap defaultOptions
             (initialState plainNumber unitSquareMap) ''G1 X1 Z-1'' = Some st' \<and>
          transformedLines st' = headerLines plainNumber unitSquareMap @ [''G1 X1.0000 Z0.0000''] \<and>
          currentX st' = 1 \<and> currentY st' = 0 \<and> currentZ st' = - 1) \<and>
   \<not> motionLine (initialState plainNumber unitSquareMap) ''M3 S1000'' \<and>
   (\<exists>st'. processLine plainNumber unitSquareMap defaultOptions
             (initialState plainNumber unitSquareMap) ''M3 S1000'' = Some st' \<and>
          currentX st' = 0 \<and> currentY st' = 0 \<and> currentZ st' = 0)"
proof -
  let ?st = "initialState plainNumber unitSquareMap"
  have m1: "motionLine ?st ''G1 X1 Z-1''"
    by (simp add: motionLine_initial short_move_class short_move_parse)
  have m2: "\<not> motionLine ?st ''M3 S1000''"
    by (simp add: motionLine_initial short_move_parse)
  have nz: "segmentLength defaultOptions \<noteq> 0" by (simp add: defaultOptions_def)
  note t1 = tracked_position_is_nominal_target[of defaultOptions plainNumber unitSquareMap ?st "''G1 X1 Z-1''"]
  note t2 = tracked_position_is_nominal_target[of defaultOptions plainNumber unitSquareMap ?st "''M3 S1000''"]
  from t1 nz obtain s1 where s1: "processLine plainNumber unitSquareMap defaultOptions ?st ''G1 X1 Z-1'' = Some s1"
    by blast
  from t2 nz obtain s2 where s2: "processLine plainNumber unitSquareMap defaultOptions ?st ''M3 S1000'' = Some s2"
    by blast
  have p1: "currentX s1 = 1 \<and> currentY s1 = 0 \<and> currentZ s1 = - 1"
    using t1 s1 m1 by (simp add: short_move_fields initial_fields)
  have p2: "currentX s2 = 0 \<and> currentY s2 = 0 \<and> currentZ s2 = 0"
    using t2 s2 m2 by (simp add: initial_fields)
  have pl: "parsedLine ?st ''G1 X1 Z-1''" using m1 by (simp add: motionLine_def)
  have l1: "transformedLines s1 = headerLines plainNumber unitSquareMap @ [''G1 X1.0000 Z0.0000'']"
    using s1 unfolding processLine_parsed[OF pl]
    by (auto simp: Let_def parsedMove_initial initial_fields short_move_line short_move_parse
          checkBounds_lines)
  show ?thesis using m1 m2 nz s1 s2 p1 p2 l1 by simp
qed

lemma plunge_class:
  "\<not> skipped ''G1 Z-1''" "\<not> absoluteSwitch ''G1 Z-1''" "\<not> incrementalSwitch ''G1 Z-1''"
  "split ''G1 Z-1'' = [''G1 Z-1'']"
  by code_simp+

lemma plunge_parse:
  "parseGcodeLine ''G1 Z-1'' 0 0 0 =
     \<lparr>moveType = G1, originalLine = ''G1 Z-1'', moveX = Some 0, moveY = Some 0,
      moveZ = Some (- 1), moveF = None, hasX = False, hasY = False, hasZ = True\<rparr>"
  by code_simp

text \<open>
  Claim C5 as stated fails. On a map whose bounds leave the origin outside, the program
  \<open>G1 Z-1\<close> is one motion line; its target \<open>(x, y)\<close> is the tracked position \<open>(0, 0)\<close>,
  outside the bounds, and the warnings are enabled. No warning is returned: the check
  is made only for a line that carries an X or a Y word.
\<close>

theorem bounds_warning_counterexample:
  "motionLine (initialState plainNumber offsetMap) ''G1 Z-1'' \<and>
   orElse (moveX (parsedMove (initialState plainNumber offsetMap) ''G1 Z-1''))
     (currentX (initialState plainNumber offsetMap)) = 0 \<and>
   orElse (moveY (parsedMove (initialState plainNumber offsetMap) ''G1 Z-1''))
     (currentY (initialState plainNumber offsetMap)) = 0 \<and>
   \<not> isWithinBounds 0 0 offsetMap \<and>
   warnOutsideBounds defaultOptions \<and>
   map_option resultWarnings (transformGcode plainNumber ''G1 Z-1'' offsetMap defaultOptions) =
     Some []"
proof -
  let ?st = "initialState plainNumber offsetMap"
  have m: "motionLine ?st ''G1 Z-1''"
    by (simp add: motionLine_initial plunge_class plunge_parse)
  then have pl: "parsedLine ?st ''G1 Z-1''" by (simp add: motionLine_def)
  have nw: "\<not> warns defaultOptions offsetMap ?st ''G1 Z-1''"
    by (simp add: warns_def xyTargetOutside_def parsedMove_initial plunge_parse)
  obtain s1 where s1: "processLine plainNumber offsetMap defaultOptions ?st ''G1 Z-1'' = Some s1"
    using processLine_returns[of defaultOptions plainNumber offsetMap ?st "''G1 Z-1''"]
    by (auto simp: defaultOptions_def)
  have w: "warnings s1 = []"
    using processLine_warnings[OF s1] nw by (simp add: initial_fields)
  have "transformGcode plainNumber ''G1 Z-1'' offsetMap defaultOptions =
        Some \<lparr>transformedGcode = join (transformedLines s1), resultWarnings = warnings s1\<rparr>"
    by (simp add: transformGcode_def plunge_class s1)
  then show ?thesis using m w
    by (simp add: parsedMove_initial plunge_parse orElse_def initial_fields isWithinBounds_def
          offsetMap_def defaultOptions_def)
qed

lemma outside_class:
  "\<not> skipped ''G0 X0 Y5''" "\<not> absoluteSwitch ''G0 X0 Y5''" "\<not> incrementalSwitch ''G0 X0 Y5''"
  "split (''G0 X0 Y5'' @ [CHR 0x0A] @ ''G0 X0 Y6'') = [''G0 X0 Y5'', ''G0 X0 Y6'']"
  by code_simp+

lemma outside_parse:
  "parseGcodeLine ''G0 X0 Y5'' 0 0 0 =
     \<lparr>moveType = G0, originalLine = ''G0 X0 Y5'', moveX = Some 0, moveY = Some 5,
      moveZ = Some 0, moveF = None, hasX = True, hasY = True, hasZ = False\<rparr>"
  by code_simp

theorem bounds_warning_once_witness:
  "warns defaultOptions offsetMap (initialState plainNumber offsetMap) ''G0 X0 Y5'' \<and>
   (\<exists>st'. processLine plainNumber offsetMap defaultOptions
            (initialState plainNumber offsetMap) ''G0 X0 Y5'' = Some st' \<and>
          warnings st' = [boundsWarning] \<and> outsideBoundsWarned st' \<and>
          \<not> warns defaultOptions offsetMap st' ''G0 X0 Y6'') \<and>
   \<not> isWithinBounds 0 6 offsetMap \<and>
   map_option resultWarnings
     (transformGcode plainNumber (''G0 X0 Y5'' @ [CHR 0x0A] @ ''G0 X0 Y6'') offsetMap defaultOptions) =
     Some [boundsWarning]"
proof -
  let ?st = "initialState plainNumber offsetMap"
  let ?g = "''G0 X0 Y5'' @ [CHR 0x0A] @ ''G0 X0 Y6''"
  have nz: "segmentLength defaultOptions \<noteq> 0" by (simp add: defaultOptions_def)
  have pl: "parsedLine ?st ''G0 X0 Y5''"
    by (simp add: parsedLine_def outside_class initial_fields)
  have out: "\<not> isWithinBounds 0 5 offsetMap \<and> \<not> isWithinBounds 0 6 offsetMap"
    by (simp add: isWithinBounds_def offsetMap_def)
  have w1: "warns defaultOptions offsetMap ?st ''G0 X0 Y5''"
    using pl out
    by (simp add: warns_def xyTargetOutside_def parsedMove_initial outside_parse orElse_def
          initial_fields defaultOptions_def)
  obtain s1 where s1: "processLine plainNumber offsetMap defaultOptions ?st ''G0 X0 Y5'' = Some s1"
    using processLine_returns[OF nz] by blast
  obtain s2 where s2: "processLine plainNumber offsetMap defaultOptions s1 ''G0 X0 Y6'' = Some s2"
    using processLine_returns[OF nz] by blast
  note t1 = bounds_warning_once[of plainNumber offsetMap defaultOptions ?st "''G0 X0 Y5''"
      "[]" ?g]
  note t2 = bounds_warning_once[of plainNumber offsetMap defaultOptions s1 "''G0 X0 Y6''"
      "[''G0 X0 Y6'']" ?g]
  have a: "warnings s1 = [boundsWarning] \<and> outsideBoundsWarned s1"
    using t1 s1 w1 by (simp add: initial_fields)
  have nw: "\<not> warns defaultOptions offsetMap s1 ''G0 X0 Y6''" using a by (simp add: warns_def)
  have run2: "processLines plainNumber offsetMap defaultOptions s1 [''G0 X0 Y6''] = Some s2"
    using s2 by simp
  have b: "warnings s2 = [boundsWarning]" using t2 a run2 by simp
  have "transformGcode plainNumber ?g offsetMap defaultOptions =
        Some \<lparr>transformedGcode = join (transformedLines s2), resultWarnings = warnings s2\<rparr>"
    unfolding transformGcode_def outside_class(4) by (simp add: s1 s2)
  then show ?thesis using w1 s1 a nw b out by simp
qed

section \<open>Properties of the probe grid\<close>

lemma upt_small:
  "[0..<1] = [0]" "[0..<2] = [0, 1]" "[0..<3] = [0, 1, 2]" "[0..<4] = [0, 1, 2, 3]"
  "[0..<5] = [0, 1, 2, 3, 4]"
  by (simp_all add: upt_rec numeral_2_eq_2 numeral_3_eq_3 eval_nat_numeral)

text \<open>An axis of the spacing mode is not empty and ends at \<open>max\<close>.\<close>

lemma spacingAxis_ends_at_max:
  "spacingAxis lo hi s = Some ps \<Longrightarrow> ps \<noteq> [] \<and> toDouble (last ps) = toDouble hi"
  by (auto simp: spacingAxis_def ensureMax_def split: option.splits if_splits)

text \<open>The doubles that occur on the axes from 0 to 10 at the spacing 9.9999 and from 0 to 2.1 at the spacing 0.7.\<close>

lemma coarse_doubles:
  "toDouble (3152519739159347 / 4503599627370496) = 3152519739159347 / 4503599627370496"
  "toDouble (7 / 10) = 3152519739159347 / 4503599627370496"
  "toDouble (2814749767106560 / 2814721619608889) = 2251822331908567 / 2251799813685248"
  "toDouble (3152519739159347 / 2251799813685248) = 3152519739159347 / 2251799813685248"
  "toDouble 2 = 2"
  "toDouble (1182194902184755 / 562949953421312) = 1182194902184755 / 562949953421312"
  "toDouble (9457559217478041 / 4503599627370496) = 1182194902184755 / 562949953421312"
  "toDouble (21 / 10) = 4728779608739021 / 2251799813685248"
  "toDouble (4728779608739021 / 2251799813685248) = 4728779608739021 / 2251799813685248"
  "toDouble (3152519739159347 / 1125899906842624) = 3152519739159347 / 1125899906842624"
  "toDouble 3 = 3"
  "toDouble (9457559217478042 / 3152519739159347) = 6755399441055745 / 2251799813685248"
  "toDouble 4 = 4"
  "toDouble (99999 / 10000) = 2814721619608889 / 281474976710656"
  "toDouble (2814721619608889 / 281474976710656) = 2814721619608889 / 281474976710656"
  "toDouble 10 = 10"
  "toDouble (2814721619608889 / 140737488355328) = 2814721619608889 / 140737488355328"
                  apply (subst toDouble_eval[where e = "- 1" and k = 6305039478318694]; simp)
                 apply (subst toDouble_eval[where e = "- 1" and k = 6305039478318694]; simp)
                apply (subst toDouble_eval[where e = 0 and k = 4503644663817134]; simp)
               apply (subst toDouble_eval[where e = 0 and k = 6305039478318694]; simp)
              apply (subst toDouble_eval[where e = 1 and k = 4503599627370496]; simp)
             apply (subst toDouble_eval[where e = 1 and k = 4728779608739020]; simp)
            apply (subst toDouble_tie[where e = 1 and f = 4728779608739020]; simp)
           apply (subst toDouble_eval[where e = 1 and k = 4728779608739021]; simp)
          apply (subst toDouble_eval[where e = 1 and k = 4728779608739021]; simp)
         apply (subst toDouble_eval[where e = 1 and k = 6305039478318694]; simp)
        apply (subst toDouble_eval[where e = 1 and k = 6755399441055744]; simp)
       apply (subst toDouble_eval[where e = 1 and k = 6755399441055745]; simp)
      apply (subst toDouble_eval[where e = 2 and k = 4503599627370496]; simp)
     apply (subst toDouble_eval[where e = 3 and k = 5629443239217778]; simp)
    apply (subst toDouble_eval[where e = 3 and k = 5629443239217778]; simp)
   apply (subst toDouble_eval[where e = 3 and k = 5629499534213120]; simp)
  apply (subst toDouble_eval[where e = 4 and k = 5629443239217778]; simp)
  done

lemma coarse_axes:
  "spacingAxis 0 10 (99999 / 10000) = Some [0, 10, 10]"
  "spacingAxis 0 (21 / 10) (7 / 10) = Some [0, 7 / 10, 7 / 5, 21 / 10, 21 / 10]"
  by (simp_all add: spacingAxis_def spacingCount_def spacingGenerated_def ensureMax_def
        toFixedNumber_def Let_def dadd_def dsub_def dmul_def ddiv_def coarse_doubles upt_small)

text \<open>
  Claim C6 fails on the code. For the axis from 0 to 10 and the spacing 9.9999 the count is
  \<open>ceil(10 / 9.9999) + 1 = 3\<close> and the second coordinate, 9.9999, is written \<open>10.000\<close> by
  \<open>toFixed(3)\<close>: the axis is 0, 10, 10. For the axis from 0 to 2.1 and the spacing 0.7 the
  quotient of the doubles is 3.0000000000000004, the count is 5, and the fourth
  coordinate, \<open>3 * 0.7 = 2.0999999999999996\<close>, is written \<open>2.100\<close>: the axis is 0, 0.7, 1.4,
  2.1, 2.1. In both the last coordinate equals \<open>max\<close>, nothing is appended, and \<open>max\<close> is on
  the axis twice; the grid probes each point of the far edges twice.
\<close>

theorem spacing_grid_max_twice:
  "(0::real) \<le> 10 \<and> (0::real) < 99999 / 10000 \<and>
   spacingAxis 0 10 (99999 / 10000) = Some [0, 10, 10] \<and>
   count_list [0, 10, 10] (10::real) = 2 \<and>
   calculateProbeGrid 0 10 0 10 (99999 / 10000) False 0 0 =
     Some [(0, 0), (10, 0), (10, 0), (10, 10), (10, 10), (0, 10), (0, 10), (10, 10), (10, 10)] \<and>
   (0::real) \<le> 21 / 10 \<and> (0::real) < 7 / 10 \<and>
   spacingAxis 0 (21 / 10) (7 / 10) = Some [0, 7 / 10, 7 / 5, 21 / 10, 21 / 10] \<and>
   count_list [0, 7 / 10, 7 / 5, 21 / 10, 21 / 10] (21 / 10 :: real) = 2 \<and>
   calculateProbeGrid 0 (21 / 10) 0 (21 / 10) (7 / 10) False 0 0 =
     Some (zigzag [0, 7 / 10, 7 / 5, 21 / 10, 21 / 10] 0 [0, 7 / 10, 7 / 5, 21 / 10, 21 / 10])"
  by (simp add: coarse_axes calculateProbeGrid_def)

text \<open>The doubles that occur on the axes from 0 to 2.0006 and from 0 to 1 at the spacing 1.\<close>

lemma fine_doubles:
  "toDouble 2 = 2"
  "toDouble (4504950707258707 / 2251799813685248) = 4504950707258707 / 2251799813685248"
  "toDouble (10003 / 5000) = 4504950707258707 / 2251799813685248"
  "toDouble (2001 / 1000) = 4505851427184181 / 2251799813685248"
  "toDouble 3 = 3"
      apply (subst toDouble_eval[where e = 1 and k = 4503599627370496]; simp)
     apply (subst toDouble_eval[where e = 1 and k = 4504950707258707]; simp)
    apply (subst toDouble_eval[where e = 1 and k = 4504950707258707]; simp)
   apply (subst toDouble_eval[where e = 1 and k = 4505851427184181]; simp)
  apply (subst toDouble_eval[where e = 1 and k = 6755399441055744]; simp)
  done

lemma fine_axes:
  "spacingAxis 0 (10003 / 5000) 1 = Some [0, 1, 2, 2001 / 1000, 10003 / 5000]"
  "spacingAxis 0 1 1 = Some [0, 1]"
  by (simp_all add: spacingAxis_def spacingCount_def spacingGenerated_def ensureMax_def
        toFixedNumber_def Let_def dadd_def dsub_def dmul_def ddiv_def fine_doubles upt_small)

text \<open>
  Claim C7 fails on the code. For the rectangle from \<open>(0, 0)\<close> to \<open>(2.0006, 1)\<close> and the
  spacing 1, the last generated x is \<open>min(3, 2.0006)\<close> rounded to 3 decimals, 2.001, which
  is not \<open>maxX\<close>, so \<open>maxX = 2.0006\<close> is appended after it. Row 0 runs through the x
  values 0, 1, 2, 2.001, 2.0006, which do not ascend, and row 1 through their reverse,
  which does not descend; the point at 2.001 is outside the rectangle.
\<close>

theorem zigzag_row_not_monotone:
  "(0::real) \<le> 10003 / 5000 \<and> (0::real) \<le> 1 \<and>
   calculateProbeGrid 0 (10003 / 5000) 0 1 1 False 0 0 =
     Some [(0, 0), (1, 0), (2, 0), (2001 / 1000, 0), (10003 / 5000, 0),
           (10003 / 5000, 1), (2001 / 1000, 1), (2, 1), (1, 1), (0, 1)] \<and>
   \<not> sorted [0, 1, 2, 2001 / 1000, 10003 / 5000 :: real] \<and>
   \<not> sorted (rev [10003 / 5000, 2001 / 1000, 2, 1, 0 :: real]) \<and>
   (10003 / 5000 :: real) < 2001 / 1000"
proof -
  have a: "\<not> sorted [0, 1, 2, 2001 / 1000, 10003 / 5000 :: real]"
    by (simp add: sorted2_simps del: sorted_wrt.simps)
  have b: "\<not> sorted (rev [10003 / 5000, 2001 / 1000, 2, 1, 0 :: real])"
    by (simp add: sorted2_simps del: sorted_wrt.simps)
  have g: "calculateProbeGrid 0 (10003 / 5000) 0 1 1 False 0 0 =
     Some [(0, 0), (1, 0), (2, 0), (2001 / 1000, 0), (10003 / 5000, 0),
           (10003 / 5000, 1), (2001 / 1000, 1), (2, 1), (1, 1), (0, 1)]"
    by (simp add: fine_axes calculateProbeGrid_def)
  show ?thesis using a b g by simp
qed

end
